theory Spec2Isabelle
  imports Main
begin

section \<open>The Go library functions the converter calls\<close>

text \<open>
  A Go \<^verbatim>\<open>string\<close> is a sequence of bytes, here \<^typ>\<open>string\<close> (a list of 8-bit
  characters); \<^verbatim>\<open>len\<close> is \<^const>\<open>length\<close>. Go's \<^verbatim>\<open>int\<close> and \<^verbatim>\<open>int64\<close> are
  \<^typ>\<open>int\<close>: the only arithmetic of the converter is a row counter, which stays far
  below \<open>2 ^ 63\<close>, and the range check of \<^verbatim>\<open>strconv.ParseInt\<close> is written out.
  The functions of this section belong to Go's standard library, not to the converter;
  they are modelled from their documented behaviour (on Unix for \<^verbatim>\<open>path/filepath\<close>).
\<close>

subsection \<open>Package strings\<close>

definition HasPrefix :: "string \<Rightarrow> string \<Rightarrow> bool" where
  "HasPrefix s p = (take (length p) s = p)"

definition HasSuffix :: "string \<Rightarrow> string \<Rightarrow> bool" where
  "HasSuffix s p = (length p \<le> length s \<and> drop (length s - length p) s = p)"

definition TrimPrefix :: "string \<Rightarrow> string \<Rightarrow> string" where
  "TrimPrefix s p = (if HasPrefix s p then drop (length p) s else s)"

definition TrimSuffix :: "string \<Rightarrow> string \<Rightarrow> string" where
  "TrimSuffix s p = (if HasSuffix s p then take (length s - length p) s else s)"

text \<open>
  \<^verbatim>\<open>strings.ReplaceAll(s, old, new)\<close>: the non-overlapping occurrences of \<open>old\<close>,
  left to right. The converter only passes one-byte patterns; for the empty pattern
  (where Go inserts \<open>new\<close> around every rune) this model leaves \<open>s\<close> as it is.
\<close>

fun ReplaceAll :: "string \<Rightarrow> string \<Rightarrow> string \<Rightarrow> string" where
  "ReplaceAll [] old new = []"
| "ReplaceAll (c # cs) old new =
     (if old \<noteq> [] \<and> HasPrefix (c # cs) old
      then new @ ReplaceAll (drop (length old - 1) cs) old new
      else c # ReplaceAll cs old new)"

text \<open>
  \<^verbatim>\<open>strings.TrimSpace\<close> removes the leading and the trailing white-space runes
  (\<^verbatim>\<open>unicode.IsSpace\<close>). The white-space code points, each as its UTF-8 bytes: tab,
  line feed, vertical tab, form feed, carriage return, space; U+0085, U+00A0; U+1680;
  U+2000 to U+200A, U+2028, U+2029, U+202F; U+205F; U+3000. A valid encoding is
  neither a prefix nor a suffix of another, so the rune at the front (the rune at the
  back) is white space exactly when one of these byte sequences is a prefix (a
  suffix) of the string.
\<close>

definition spaceRunes :: "string list" where
  "spaceRunes =
     map (\<lambda>b. [b]) [CHR 0x09, CHR 0x0A, CHR 0x0B, CHR 0x0C, CHR 0x0D, CHR 0x20]
     @ map (\<lambda>b. [CHR 0xC2, b]) [CHR 0x85, CHR 0xA0]
     @ [[CHR 0xE1, CHR 0x9A, CHR 0x80]]
     @ map (\<lambda>b. [CHR 0xE2, CHR 0x80, b])
         [CHR 0x80, CHR 0x81, CHR 0x82, CHR 0x83, CHR 0x84, CHR 0x85, CHR 0x86, CHR 0x87,
          CHR 0x88, CHR 0x89, CHR 0x8A, CHR 0xA8, CHR 0xA9, CHR 0xAF]
     @ [[CHR 0xE2, CHR 0x81, CHR 0x9F], [CHR 0xE3, CHR 0x80, CHR 0x80]]"

definition runeWidth :: "string list \<Rightarrow> string \<Rightarrow> nat" where
  \<comment> \<open>the length of the first of \<open>ws\<close> that the string starts with, 0 when there is none\<close>
  "runeWidth ws s = (case find (\<lambda>w. take (length w) s = w) ws of None \<Rightarrow> 0 | Some w \<Rightarrow> length w)"

fun stripRunes :: "string list \<Rightarrow> string \<Rightarrow> string" where
  "stripRunes ws [] = []"
| "stripRunes ws (c # cs) =
     (if runeWidth ws (c # cs) = 0 then c # cs
      else stripRunes ws (drop (runeWidth ws (c # cs) - 1) cs))"

definition TrimLeftSpace :: "string \<Rightarrow> string" where
  "TrimLeftSpace s = stripRunes spaceRunes s"

definition TrimRightSpace :: "string \<Rightarrow> string" where
  "TrimRightSpace s = rev (stripRunes (map rev spaceRunes) (rev s))"

definition TrimSpace :: "string \<Rightarrow> string" where
  "TrimSpace s = TrimRightSpace (TrimLeftSpace s)"

text \<open>
  \<^verbatim>\<open>strings.ToLower\<close>, on the ASCII letters. Go also lower-cases the letters beyond
  ASCII and replaces a byte that is not valid UTF-8 by U+FFFD. No such letter has a
  lower case among the ASCII letters of \<^verbatim>\<open>true\<close> and \<^verbatim>\<open>false\<close>, so the
  comparison of \<^verbatim>\<open>inferType\<close> gives the same answer on every string; the text that
  \<^verbatim>\<open>recordToJSON\<close> emits for a Bool column is Go's only on ASCII input, and whether
  a field is emitted does not depend on it.
\<close>

definition lowerByte :: "char \<Rightarrow> char" where
  "lowerByte c =
     (case map_of (zip ''ABCDEFGHIJKLMNOPQRSTUVWXYZ'' ''abcdefghijklmnopqrstuvwxyz'') c of
        None \<Rightarrow> c | Some d \<Rightarrow> d)"

definition ToLower :: "string \<Rightarrow> string" where
  "ToLower s = map lowerByte s"

subsection \<open>Package strconv and fmt\<close>

definition isDigit :: "char \<Rightarrow> bool" where
  "isDigit c = (c \<in> set ''0123456789'')"

definition digitVal :: "char \<Rightarrow> int" where
  "digitVal c = int (of_char c) - 48"

definition decimalValue :: "string \<Rightarrow> int" where
  "decimalValue ds = foldl (\<lambda>n c. 10 * n + digitVal c) 0 ds"

text \<open>
  \<^verbatim>\<open>strconv.ParseInt(s, 10, 64)\<close>: an optional sign, then one or more decimal digits
  (no underscores in base 10), and the value within \<open>- 2 ^ 63 .. 2 ^ 63 - 1\<close>;
  \<^const>\<open>None\<close> stands for a non-nil error (syntax or range).
\<close>

definition ParseInt :: "string \<Rightarrow> int option" where
  "ParseInt s =
     (case s of
        [] \<Rightarrow> None
      | c # cs \<Rightarrow>
          (let neg = (c = CHR ''-'');
               ds = (if c = CHR ''+'' \<or> c = CHR ''-'' then cs else s)
           in if ds = [] then None
              else if list_all isDigit ds then
                (let un = decimalValue ds
                 in if neg then (if un > 2 ^ 63 then None else Some (- un))
                    else (if un \<ge> 2 ^ 63 then None else Some un))
              else None))"

text \<open>\<^verbatim>\<open>fmt.Sprintf("%d", i)\<close> for a non-negative \<open>i\<close>.\<close>

fun decimal :: "nat \<Rightarrow> string" where
  "decimal n =
     (if n < 10 then [''0123456789'' ! n]
      else decimal (n div 10) @ [''0123456789'' ! (n mod 10)])"

declare decimal.simps [simp del]

text \<open>
  \<^verbatim>\<open>strconv.ParseFloat(s, 64)\<close> and \<^verbatim>\<open>time.Parse(layout, s)\<close> are parameters of the
  model: a theorem about the converter holds whatever these two library functions
  accept. \<open>'f\<close> is the type of 64-bit floating-point values; \<^const>\<open>None\<close> and
  \<^const>\<open>False\<close> stand for a non-nil error.
\<close>

record 'f golib =
  ParseFloat :: "string \<Rightarrow> 'f option"
  time_Parse :: "string \<Rightarrow> string \<Rightarrow> bool"

section \<open>Field types and the widening of two types\<close>

datatype fieldType = typeString | typeInt64 | typeFloat64 | typeBool | typeDate | typeTimestamp

definition widenType :: "fieldType \<Rightarrow> fieldType \<Rightarrow> fieldType" where
  "widenType current new =
     (if current = typeString \<or> new = typeString then typeString
      else if current = typeFloat64 \<or> new = typeFloat64 then
        (if current = typeBool \<or> new = typeBool then typeString else typeFloat64)
      else if current = typeBool \<and> new = typeBool then typeBool
      else if (current = typeBool) \<noteq> (new = typeBool) then typeString
      else if current = typeInt64 \<and> new = typeInt64 then typeInt64
      else typeString)"

text \<open>The four field types of the specification's data model, and its join table.\<close>

definition FieldTypes :: "fieldType list" where
  "FieldTypes = [typeInt64, typeFloat64, typeBool, typeString]"

fun joinTable :: "fieldType \<Rightarrow> fieldType \<Rightarrow> fieldType" where
  "joinTable typeInt64 typeInt64 = typeInt64"
| "joinTable typeInt64 typeFloat64 = typeFloat64"
| "joinTable typeFloat64 typeInt64 = typeFloat64"
| "joinTable typeFloat64 typeFloat64 = typeFloat64"
| "joinTable typeBool typeBool = typeBool"
| "joinTable a b = typeString"

section \<open>Schema detection\<close>

subsection \<open>inferType\<close>

definition RFC3339 :: string where
  "RFC3339 = ''2006-01-02T15:04:05Z07:00''"

definition dateFormats :: "string list" where
  "dateFormats =
     [''2006-01-02'', ''02/01/2006'', ''01/02/2006'', ''2006-01-02T15:04:05'',
      ''2006-01-02 15:04:05'', RFC3339]"

text \<open>The loop over the date layouts: the type it returns at the first layout that parses.\<close>

fun matchDate :: "'f golib \<Rightarrow> string list \<Rightarrow> string \<Rightarrow> fieldType option" where
  "matchDate L [] val = None"
| "matchDate L (layout # layouts) val =
     (if time_Parse L layout val then Some typeString else matchDate L layouts val)"

definition inferType :: "'f golib \<Rightarrow> string \<Rightarrow> fieldType" where
  "inferType L raw =
     (let val = TrimSpace raw
      in if val = [] then typeString
         else
           (let lower = ToLower val
            in if lower = ''true'' \<or> lower = ''false'' then typeBool
               else if ParseInt val \<noteq> None then typeInt64
               else if ParseFloat L val \<noteq> None then typeFloat64
               else (case matchDate L dateFormats val of
                       Some t \<Rightarrow> t
                     | None \<Rightarrow> typeString)))"

subsection \<open>detectSchema\<close>

text \<open>
  Go errors: a message, or \<^verbatim>\<open>fmt.Errorf("prefix: %w", err)\<close> wrapping another one.
\<close>

datatype err = GoError string | Wrap string err

text \<open>
  The \<^verbatim>\<open>csv.Reader\<close> of an opened file is the list of what its successive
  \<^verbatim>\<open>Read\<close> calls return before \<^verbatim>\<open>io.EOF\<close>: a record, or an error that is not
  \<^verbatim>\<open>io.EOF\<close> (a \<^verbatim>\<open>csv.ParseError\<close>, such as a field count that differs from the
  first record's). A \<^verbatim>\<open>Read\<close> on the empty list returns \<^verbatim>\<open>io.EOF\<close>. The list
  is finite, as a file is: every \<^verbatim>\<open>Read\<close> consumes input, so the loops over a reader
  end.
\<close>

datatype csvRead = Row "string list" | Malformed err

definition BOM :: string where
  "BOM = [CHR 0xEF, CHR 0xBB, CHR 0xBF]"

definition cleanHeader :: "nat \<Rightarrow> string \<Rightarrow> string" where
  "cleanHeader i h0 =
     (let h1 = TrimPrefix h0 BOM;
          h2 = TrimSpace h1;
          h3 = ReplaceAll h2 '' '' ''_'';
          h4 = ReplaceAll h3 ''.'' ''_''
      in if h4 = [] then ''column_'' @ decimal i else h4)"

fun cleanHeaders :: "nat \<Rightarrow> string list \<Rightarrow> string list" where
  "cleanHeaders i [] = []"
| "cleanHeaders i (h # hs) = cleanHeader i h # cleanHeaders (Suc i) hs"

text \<open>
  The loop over the cells of one sampled record, \<^verbatim>\<open>for i, val := range record\<close>: it
  stops at the end of the record or of \<^verbatim>\<open>types\<close>, and skips a cell that is the empty
  string (the comparison is on the cell as read, before any trimming).
\<close>

fun observeRow :: "'f golib \<Rightarrow> string list \<Rightarrow> fieldType list \<Rightarrow> fieldType list" where
  "observeRow L [] types = types"
| "observeRow L (val # vals) [] = []"
| "observeRow L (val # vals) (t # types) =
     (if val = [] then t else widenType t (inferType L val)) # observeRow L vals types"

text \<open>
  The sampling loop \<^verbatim>\<open>for row := 0; row < sampleRows; row++\<close>. The first argument is
  the number of iterations left, \<open>sampleRows - row\<close>; the state is the reader, the
  working types and the number of \<^verbatim>\<open>Read\<close> calls made so far.
\<close>

fun sampleLoop ::
  "'f golib \<Rightarrow> nat \<Rightarrow> csvRead list \<Rightarrow> fieldType list \<Rightarrow> nat \<Rightarrow> fieldType list \<times> nat" where
  "sampleLoop L 0 r types reads = (types, reads)"
| "sampleLoop L (Suc n) [] types reads = (types, Suc reads)"
| "sampleLoop L (Suc n) (Malformed e # r) types reads = sampleLoop L n r types (Suc reads)"
| "sampleLoop L (Suc n) (Row record # r) types reads =
     sampleLoop L n r (observeRow L record types) (Suc reads)"

text \<open>The records among the results of the reads.\<close>

fun goodRows :: "csvRead list \<Rightarrow> string list list" where
  "goodRows [] = []"
| "goodRows (Row record # r) = record # goodRows r"
| "goodRows (Malformed e # r) = goodRows r"

text \<open>
  \<open>opened\<close> is the result of \<^verbatim>\<open>os.Open(file)\<close> with the reader on the file. The
  delimiter only configures that reader.
\<close>

definition detectSchema ::
  "'f golib \<Rightarrow> err + csvRead list \<Rightarrow> int \<Rightarrow> err + string list \<times> fieldType list" where
  "detectSchema L opened sampleRows =
     (case opened of
        Inl e \<Rightarrow> Inl e
      | Inr [] \<Rightarrow> Inl (Wrap ''reading headers'' (GoError ''EOF''))
      | Inr (Malformed e # r) \<Rightarrow> Inl (Wrap ''reading headers'' e)
      | Inr (Row hs # r) \<Rightarrow>
          (let headers = cleanHeaders 0 hs;
               types = replicate (length headers) typeInt64
           in Inr (headers, fst (sampleLoop L (nat sampleRows) r types 0))))"

section \<open>The record encoder\<close>

text \<open>
  One field of the encoded row, \<^verbatim>\<open>"name":value\<close>: the header and the value as
  \<^verbatim>\<open>%d\<close>, \<^verbatim>\<open>%g\<close>, a bare lower-cased token or an escaped string print it. The row
  is the list of its fields; its text is the fields joined by commas within braces.
\<close>

datatype 'f jsonValue = JInt int | JFloat 'f | JBool string | JString string

type_synonym 'f jsonField = "string \<times> 'f jsonValue"

datatype panic = IndexOutOfRange | DivideByZero

definition cellOf :: "string list \<Rightarrow> nat \<Rightarrow> string" where
  \<comment> \<open>\<^verbatim>\<open>var val string; if i < len(record) { val = strings.TrimSpace(record[i]) }\<close>\<close>
  "cellOf record i = (if i < length record then TrimSpace (record ! i) else [])"

definition escapeJSON :: "string \<Rightarrow> string" where
  "escapeJSON val =
     ReplaceAll (ReplaceAll val [CHR 0x5C] [CHR 0x5C, CHR 0x5C]) [CHR 0x22] [CHR 0x5C, CHR 0x22]"

definition encodeCell :: "'f golib \<Rightarrow> fieldType \<Rightarrow> string \<Rightarrow> 'f jsonValue option" where
  \<comment> \<open>the \<^verbatim>\<open>switch types[i]\<close>; \<^const>\<open>None\<close> when nothing is appended\<close>
  "encodeCell L t val =
     (case t of
        typeInt64 \<Rightarrow> map_option JInt (ParseInt val)
      | typeFloat64 \<Rightarrow> map_option JFloat (ParseFloat L val)
      | typeBool \<Rightarrow> Some (JBool (ToLower val))
      | _ \<Rightarrow> Some (JString (escapeJSON val)))"

text \<open>
  The loop \<^verbatim>\<open>for i, h := range headers\<close>; \<^verbatim>\<open>types[i]\<close> is read only for a
  non-empty cell and panics when \<open>i\<close> is out of range.
\<close>

fun encodeFields ::
  "'f golib \<Rightarrow> string list \<Rightarrow> fieldType list \<Rightarrow> nat \<Rightarrow> string list \<Rightarrow> 'f jsonField list
     \<Rightarrow> panic + 'f jsonField list" where
  "encodeFields L record types i [] parts = Inr parts"
| "encodeFields L record types i (h # hs) parts =
     (let val = cellOf record i
      in if val = [] then encodeFields L record types (Suc i) hs parts
         else if i < length types then
           (case encodeCell L (types ! i) val of
              None \<Rightarrow> encodeFields L record types (Suc i) hs parts
            | Some v \<Rightarrow> encodeFields L record types (Suc i) hs (parts @ [(h, v)]))
         else Inl IndexOutOfRange)"

definition recordToJSON ::
  "'f golib \<Rightarrow> string list \<Rightarrow> string list \<Rightarrow> fieldType list \<Rightarrow> panic + 'f jsonField list" where
  "recordToJSON L record headers types = encodeFields L record types 0 headers []"

text \<open>
  The condition of the specification for a field of column \<open>i\<close> to be in the encoded
  row, in its words.
\<close>

definition fieldPresent :: "'f golib \<Rightarrow> string list \<Rightarrow> fieldType list \<Rightarrow> nat \<Rightarrow> bool" where
  "fieldPresent L record types i =
     (i < length record \<and> TrimSpace (record ! i) \<noteq> []
      \<and> (types ! i = typeInt64 \<longrightarrow> ParseInt (TrimSpace (record ! i)) \<noteq> None)
      \<and> (types ! i = typeFloat64 \<longrightarrow> ParseFloat L (TrimSpace (record ! i)) \<noteq> None))"

section \<open>Writing the Parquet file\<close>

text \<open>
  Go's \<^verbatim>\<open>%\<close> on integers: the remainder of the division that truncates towards
  zero, and a run-time panic when the divisor is zero.
\<close>

definition goRem :: "int \<Rightarrow> int \<Rightarrow> panic + int" where
  "goRem a b = (if b = 0 then Inl DivideByZero else Inr (sgn a * (\<bar>a\<bar> mod \<bar>b\<bar>)))"

datatype logLine = SkippingMalformedRow int err | ErrorWritingRow int err | ProcessedRows int

text \<open>
  The streaming loop \<^verbatim>\<open>for { record, err := r.Read() ... }\<close> of \<^verbatim>\<open>writeParquet\<close>.
  \<open>pwWrite\<close> is \<^verbatim>\<open>pw.Write\<close> of the external Parquet writer, whose state has the type
  \<open>'w\<close>: it returns the error (or none) and the writer's next state. The state of
  the loop is the reader, the writer, \<^verbatim>\<open>rowCount\<close> and the lines logged.
\<close>

fun writeLoop ::
  "'f golib \<Rightarrow> ('w \<Rightarrow> 'f jsonField list \<Rightarrow> err option \<times> 'w) \<Rightarrow> string list \<Rightarrow> fieldType list
     \<Rightarrow> int \<Rightarrow> csvRead list \<Rightarrow> 'w \<Rightarrow> int \<Rightarrow> logLine list \<Rightarrow> panic + 'w \<times> int \<times> logLine list" where
  "writeLoop L pwWrite headers types batchSize [] pw rowCount logged =
     Inr (pw, rowCount, logged)"
| "writeLoop L pwWrite headers types batchSize (Malformed e # r) pw rowCount logged =
     writeLoop L pwWrite headers types batchSize r pw rowCount
       (logged @ [SkippingMalformedRow (rowCount + 1) e])"
| "writeLoop L pwWrite headers types batchSize (Row record # r) pw rowCount logged =
     (case recordToJSON L record headers types of
        Inl p \<Rightarrow> Inl p
      | Inr jsonRow \<Rightarrow>
          (case pwWrite pw jsonRow of
             (Some e, pw') \<Rightarrow>
               writeLoop L pwWrite headers types batchSize r pw' rowCount
                 (logged @ [ErrorWritingRow (rowCount + 1) e])
           | (None, pw') \<Rightarrow>
               (case goRem (rowCount + 1) batchSize of
                  Inl p \<Rightarrow> Inl p
                | Inr m \<Rightarrow>
                    writeLoop L pwWrite headers types batchSize r pw' (rowCount + 1)
                      (if m = 0 then logged @ [ProcessedRows (rowCount + 1)] else logged))))"

text \<open>
  What the file system and the Parquet library answer to the calls of one
  \<^verbatim>\<open>writeParquet\<close>: creating the output file, creating the JSON writer on it,
  re-opening the CSV file, writing a row, finalizing.
\<close>

record ('f, 'w) parquetIO =
  newLocalFileWriter :: "err option"
  newJSONWriter :: "err + 'w"
  openInput :: "err + csvRead list"
  pwWrite :: "'w \<Rightarrow> 'f jsonField list \<Rightarrow> err option \<times> 'w"
  pwWriteStop :: "'w \<Rightarrow> err option"

datatype fsOp = Stat string | Open string | Create string | MkdirAll string | Remove string

text \<open>
  \<^verbatim>\<open>writeParquet\<close> returns its error (or none), with the file-system calls it made, or
  panics.
\<close>

definition writeParquet ::
  "'f golib \<Rightarrow> ('f, 'w) parquetIO \<Rightarrow> string \<Rightarrow> string \<Rightarrow> string list \<Rightarrow> fieldType list \<Rightarrow> int
     \<Rightarrow> panic + err option \<times> fsOp list" where
  "writeParquet L io inputFile outFile headers types batchSize =
     (case newLocalFileWriter io of
        Some e \<Rightarrow> Inr (Some (Wrap ''creating parquet writer'' e), [Create outFile])
      | None \<Rightarrow>
          (case newJSONWriter io of
             Inl e \<Rightarrow> Inr (Some (Wrap ''creating JSON writer'' e), [Create outFile])
           | Inr pw \<Rightarrow>
               (case openInput io of
                  Inl e \<Rightarrow> Inr (Some e, [Create outFile, Open inputFile])
                | Inr [] \<Rightarrow> Inr (Some (GoError ''EOF''), [Create outFile, Open inputFile])
                | Inr (Malformed e # r) \<Rightarrow> Inr (Some e, [Create outFile, Open inputFile])
                | Inr (Row header # r) \<Rightarrow>
                    (case writeLoop L (pwWrite io) headers types batchSize r pw 0 [] of
                       Inl p \<Rightarrow> Inl p
                     | Inr (pw', rowCount, logged) \<Rightarrow>
                         (case pwWriteStop io pw' of
                            Some e \<Rightarrow>
                              Inr (Some (Wrap ''finalizing parquet'' e),
                                   [Create outFile, Open inputFile])
                          | None \<Rightarrow> Inr (None, [Create outFile, Open inputFile]))))))"

section \<open>Configuration\<close>

record Config =
  InputPath :: string
  OutputDir :: string
  DeleteOriginal :: bool
  LogLevel :: string
  BatchSize :: int
  Delimiter :: string
  SampleRows :: int

text \<open>The command-line flags, and the keys a YAML configuration file sets.\<close>

record Flags =
  flagConfig :: string
  flagInput :: string
  flagOutput :: string
  flagKeep :: bool
  flagLogLevel :: string
  flagBatchSize :: int
  flagDelimiter :: string
  flagSampleRows :: int

record Yaml =
  yamlInput :: "string option"
  yamlOutput :: "string option"
  yamlDeleteOriginal :: "bool option"
  yamlLogLevel :: "string option"
  yamlBatchSize :: "int option"
  yamlDelimiter :: "string option"
  yamlSampleRows :: "int option"

definition defaults :: Config where
  "defaults = \<lparr>InputPath = [], OutputDir = [], DeleteOriginal = True, LogLevel = ''info'',
      BatchSize = 10000, Delimiter = '','', SampleRows = 100\<rparr>"

definition orElse :: "'a option \<Rightarrow> 'a \<Rightarrow> 'a" where
  "orElse x d = (case x of None \<Rightarrow> d | Some v \<Rightarrow> v)"

definition Unmarshal :: "Yaml \<Rightarrow> Config \<Rightarrow> Config" where
  \<comment> \<open>\<^verbatim>\<open>yaml.Unmarshal(data, cfg)\<close>: a key of the file replaces the field\<close>
  "Unmarshal y cfg =
     \<lparr>InputPath = orElse (yamlInput y) (InputPath cfg),
      OutputDir = orElse (yamlOutput y) (OutputDir cfg),
      DeleteOriginal = orElse (yamlDeleteOriginal y) (DeleteOriginal cfg),
      LogLevel = orElse (yamlLogLevel y) (LogLevel cfg),
      BatchSize = orElse (yamlBatchSize y) (BatchSize cfg),
      Delimiter = orElse (yamlDelimiter y) (Delimiter cfg),
      SampleRows = orElse (yamlSampleRows y) (SampleRows cfg)\<rparr>"

definition overrideFlags :: "Flags \<Rightarrow> Config \<Rightarrow> Config" where
  "overrideFlags fl cfg =
     \<lparr>InputPath = (if flagInput fl \<noteq> [] then flagInput fl else InputPath cfg),
      OutputDir = (if flagOutput fl \<noteq> [] then flagOutput fl else OutputDir cfg),
      DeleteOriginal = (if flagKeep fl then False else DeleteOriginal cfg),
      LogLevel = (if flagLogLevel fl \<noteq> [] then flagLogLevel fl else LogLevel cfg),
      BatchSize = (if flagBatchSize fl > 0 then flagBatchSize fl else BatchSize cfg),
      Delimiter = (if flagDelimiter fl \<noteq> [] then flagDelimiter fl else Delimiter cfg),
      SampleRows = (if flagSampleRows fl > 0 then flagSampleRows fl else SampleRows cfg)\<rparr>"

text \<open>
  \<^verbatim>\<open>config.Load\<close>. \<open>file\<close> is the result of reading the configuration file and,
  when it was read, of parsing it.
\<close>

definition Load :: "Flags \<Rightarrow> err + (err + Yaml) \<Rightarrow> err + Config" where
  "Load fl file =
     (case
        (case file of
           Inl e \<Rightarrow>
             if flagConfig fl \<noteq> ''config.yaml''
             then Inl (Wrap (''reading config file '' @ flagConfig fl) e)
             else Inr defaults
         | Inr (Inl e) \<Rightarrow> Inl (Wrap ''parsing config file'' e)
         | Inr (Inr y) \<Rightarrow> Inr (Unmarshal y defaults))
      of
        Inl e \<Rightarrow> Inl e
      | Inr cfg0 \<Rightarrow>
          (let cfg = overrideFlags fl cfg0
           in if InputPath cfg = []
              then Inl (GoError ''input path is required (use --input flag or set in config)'')
              else Inr cfg))"

section \<open>Paths\<close>

text \<open>
  Package \<^verbatim>\<open>path/filepath\<close> on Unix, where the separator is the slash and there are no
  volume names. \<^verbatim>\<open>Clean\<close> is modelled on the elements of the path, following the four
  rules of its documentation: empty elements and \<^verbatim>\<open>.\<close> elements go; a \<^verbatim>\<open>..\<close>
  element removes the element before it when that one is not \<^verbatim>\<open>..\<close>, goes when the
  path is rooted and nothing is before it, and stays otherwise.
\<close>

fun splitAcc :: "string \<Rightarrow> string \<Rightarrow> string list" where
  "splitAcc cur [] = [cur]"
| "splitAcc cur (c # cs) =
     (if c = CHR ''/'' then cur # splitAcc [] cs else splitAcc (cur @ [c]) cs)"

definition pathElems :: "string \<Rightarrow> string list" where
  "pathElems p = filter (\<lambda>e. e \<noteq> [] \<and> e \<noteq> ''.'') (splitAcc [] p)"

definition cleanStep :: "bool \<Rightarrow> string list \<Rightarrow> string \<Rightarrow> string list" where
  "cleanStep rooted out e =
     (if e = ''..'' then
        (if out \<noteq> [] \<and> last out \<noteq> ''..'' then butlast out
         else if rooted then out
         else out @ [''..''])
      else out @ [e])"

fun joinSlash :: "string list \<Rightarrow> string" where
  "joinSlash [] = []"
| "joinSlash [e] = e"
| "joinSlash (e # es) = e @ CHR ''/'' # joinSlash es"

definition renderPath :: "bool \<Rightarrow> string list \<Rightarrow> string" where
  "renderPath rooted out =
     (if rooted then CHR ''/'' # joinSlash out
      else if out = [] then ''.''
      else joinSlash out)"

definition Clean :: "string \<Rightarrow> string" where
  "Clean p =
     (if p = [] then ''.''
      else renderPath (hd p = CHR ''/'') (foldl (cleanStep (hd p = CHR ''/'')) [] (pathElems p)))"

definition lastElem :: "string \<Rightarrow> string" where
  \<comment> \<open>what follows the last separator\<close>
  "lastElem p = rev (takeWhile (\<lambda>c. c \<noteq> CHR ''/'') (rev p))"

definition dirPrefix :: "string \<Rightarrow> string" where
  \<comment> \<open>the path up to its last separator, included\<close>
  "dirPrefix p = rev (dropWhile (\<lambda>c. c \<noteq> CHR ''/'') (rev p))"

definition Ext :: "string \<Rightarrow> string" where
  "Ext p =
     (let e = lastElem p
      in if CHR ''.'' \<in> set e
         then CHR ''.'' # rev (takeWhile (\<lambda>c. c \<noteq> CHR ''.'') (rev e))
         else [])"

definition Base :: "string \<Rightarrow> string" where
  "Base p =
     (if p = [] then ''.''
      else
        (let e = lastElem (rev (dropWhile (\<lambda>c. c = CHR ''/'') (rev p)))
         in if e = [] then ''/'' else e))"

definition Dir :: "string \<Rightarrow> string" where
  "Dir p = Clean (dirPrefix p)"

definition Join :: "string \<Rightarrow> string \<Rightarrow> string" where
  \<comment> \<open>\<^verbatim>\<open>filepath.Join\<close> of two elements: the empty ones are ignored\<close>
  "Join dir name =
     (if dir \<noteq> [] then Clean (dir @ ''/'' @ name)
      else if name \<noteq> [] then Clean name
      else [])"

definition outputPath :: "string \<Rightarrow> Config \<Rightarrow> string" where
  "outputPath inputFile cfg =
     (let base = TrimSuffix (Base inputFile) (Ext inputFile);
          dir = (if OutputDir cfg \<noteq> [] then OutputDir cfg else Dir inputFile)
      in Join dir (base @ ''.parquet''))"

text \<open>
  For the proofs about \<^const>\<open>Clean\<close>: a path element as \<^const>\<open>pathElems\<close> returns them,
  and the form of a cleaned list of elements (the \<^verbatim>\<open>..\<close> elements first, none of
  them in a rooted path).
\<close>

definition validElem :: "string \<Rightarrow> bool" where
  "validElem e = (CHR ''/'' \<notin> set e \<and> e \<noteq> [] \<and> e \<noteq> ''.'')"

definition normalForm :: "bool \<Rightarrow> string list \<Rightarrow> bool" where
  "normalForm rooted out =
     (\<exists>k names. out = replicate k ''..'' @ names \<and> ''..'' \<notin> set names \<and> (rooted \<longrightarrow> k = 0))"

section \<open>Converting one file\<close>

record Result =
  InputFile :: string
  OutputFile :: string
  InputSize :: int
  OutputSize :: int
  Err :: "err option"

text \<open>
  What the outside answers during one \<^verbatim>\<open>convertFile\<close>: \<^verbatim>\<open>os.Stat\<close> of the input
  (its size), the opened input of \<^verbatim>\<open>detectSchema\<close>, \<^verbatim>\<open>os.MkdirAll\<close>, the calls of
  \<^verbatim>\<open>writeParquet\<close>, \<^verbatim>\<open>os.Stat\<close> of the output (its size) and \<^verbatim>\<open>os.Remove\<close> of
  the input.
\<close>

record ('f, 'w) fileIO =
  statInput :: "err + int"
  detectOpen :: "err + csvRead list"
  mkdirAll :: "err option"
  parquet :: "('f, 'w) parquetIO"
  statOutput :: "err + int"
  removeInput :: "err option"

text \<open>
  \<^verbatim>\<open>convertFile\<close> returns the result of the file, with the file-system calls it made
  in their order, or panics. (\<^verbatim>\<open>buildJSONSchema\<close> and \<^verbatim>\<open>formatSchema\<close> only build
  the texts given to the writer and to the log.)
\<close>

definition convertFile ::
  "'f golib \<Rightarrow> ('f, 'w) fileIO \<Rightarrow> string \<Rightarrow> Config \<Rightarrow> panic + Result \<times> fsOp list" where
  "convertFile L io inputFile cfg =
     (case statInput io of
        Inl e \<Rightarrow>
          Inr (\<lparr>InputFile = inputFile, OutputFile = [], InputSize = 0, OutputSize = 0,
                Err = Some e\<rparr>, [Stat inputFile])
      | Inr inputSize \<Rightarrow>
          (let outFile = outputPath inputFile cfg;
               res = \<lparr>InputFile = inputFile, OutputFile = outFile, InputSize = inputSize,
                      OutputSize = 0, Err = None\<rparr>;
               ops1 = [Stat inputFile, Open inputFile]
           in case detectSchema L (detectOpen io) (SampleRows cfg) of
                Inl e \<Rightarrow> Inr (res\<lparr>Err := Some (Wrap ''detecting schema'' e)\<rparr>, ops1)
              | Inr (headers, types) \<Rightarrow>
                  (case (if OutputDir cfg \<noteq> [] then mkdirAll io else None) of
                     Some e \<Rightarrow>
                       Inr (res\<lparr>Err := Some (Wrap ''creating output dir'' e)\<rparr>,
                            ops1 @ [MkdirAll (OutputDir cfg)])
                   | None \<Rightarrow>
                       (let ops2 = ops1 @ (if OutputDir cfg \<noteq> [] then [MkdirAll (OutputDir cfg)] else [])
                        in case writeParquet L (parquet io) inputFile outFile headers types
                                  (BatchSize cfg) of
                             Inl p \<Rightarrow> Inl p
                           | Inr (Some e, wops) \<Rightarrow>
                               Inr (res\<lparr>Err := Some (Wrap ''writing parquet'' e)\<rparr>,
                                    ops2 @ wops @ [Remove outFile])
                           | Inr (None, wops) \<Rightarrow>
                               (let ops3 = ops2 @ wops @ [Stat outFile]
                                in case statOutput io of
                                     Inl e \<Rightarrow>
                                       Inr (res\<lparr>Err := Some (GoError ''output verification failed'')\<rparr>,
                                            ops3)
                                   | Inr outSize \<Rightarrow>
                                       if outSize = 0
                                       then Inr (res\<lparr>Err := Some (GoError ''output verification failed'')\<rparr>,
                                                 ops3)
                                       else Inr (res\<lparr>OutputSize := outSize\<rparr>,
                                                 ops3 @ (if DeleteOriginal cfg then [Remove inputFile]
                                                         else [])))))))"

section \<open>Converting all files\<close>

text \<open>
  \<^verbatim>\<open>ConvertAll\<close> starts one goroutine per file, in the order of the files. A goroutine
  waits for one of the four places of the channel \<^verbatim>\<open>sem\<close>, runs \<^verbatim>\<open>convertFile\<close>,
  stores the result at its own index of \<^verbatim>\<open>results\<close> and gives the place back;
  \<^verbatim>\<open>wg.Wait()\<close> returns when every goroutine is done. A run is a sequence of events,
  each the step of one goroutine; the events of different goroutines come in any order.
\<close>

datatype taskState = NotStarted | Waiting | Running | Finished

record batch =
  tasks :: "taskState list"
  results :: "Result list"

datatype event = Spawn | Acquire nat | Complete nat



definition inFlight :: "batch \<Rightarrow> nat" where
  \<comment> \<open>the places of \<^verbatim>\<open>sem\<close> that are taken\<close>
  "inFlight s = length (filter (\<lambda>t. t = Running) (tasks s))"

definition started :: "batch \<Rightarrow> nat" where
  \<comment> \<open>the index \<^verbatim>\<open>i\<close> of the loop \<^verbatim>\<open>for i, f := range files\<close>\<close>
  "started s = length (takeWhile (\<lambda>t. t \<noteq> NotStarted) (tasks s))"

text \<open>
  One event; \<^const>\<open>None\<close> when the event cannot happen in the state, or when the
  goroutine panics (which ends the program). \<open>ios i\<close> is what the outside answers to
  the goroutine of index \<open>i\<close>.
\<close>

fun step ::
  "'f golib \<Rightarrow> (nat \<Rightarrow> ('f, 'w) fileIO) \<Rightarrow> Config \<Rightarrow> string list \<Rightarrow> event \<Rightarrow> batch \<Rightarrow> batch option" where
  "step L ios cfg files Spawn s =
     (if started s < length (tasks s)
      then Some (s\<lparr>tasks := (tasks s)[started s := Waiting]\<rparr>)
      else None)"
| "step L ios cfg files (Acquire i) s =
     (if i < length (tasks s) \<and> tasks s ! i = Waiting \<and> inFlight s < 4
      then Some (s\<lparr>tasks := (tasks s)[i := Running]\<rparr>)
      else None)"
| "step L ios cfg files (Complete i) s =
     (if i < length (tasks s) \<and> tasks s ! i = Running
      then (case convertFile L (ios i) (files ! i) cfg of
              Inl p \<Rightarrow> None
            | Inr (res, ops) \<Rightarrow>
                Some (s\<lparr>tasks := (tasks s)[i := Finished], results := (results s)[i := res]\<rparr>))
      else None)"








section \<open>An instance of the library parameters\<close>

text \<open>
  For evaluating the model on examples: a \<^verbatim>\<open>ParseFloat\<close> that accepts the plain
  decimal notation (sign, digits, one point) and returns the digits with the number of
  those after the point, and a \<^verbatim>\<open>time.Parse\<close> that compares the shape of the value
  with the layout (a digit for a digit, any other byte for itself). Both accept less
  than Go does; no theorem of a claim depends on them.
\<close>

definition decimalFloat :: "string \<Rightarrow> (int \<times> nat) option" where
  "decimalFloat s =
     (let neg = HasPrefix s ''-'';
          body = (if HasPrefix s ''-'' \<or> HasPrefix s ''+'' then drop 1 s else s);
          whole = takeWhile isDigit body;
          rest = dropWhile isDigit body;
          frac = drop 1 rest
      in if whole @ frac = [] then None
         else if rest = [] \<or> (HasPrefix rest ''.'' \<and> list_all isDigit frac)
         then Some ((if neg then - 1 else 1) * decimalValue (whole @ frac), length frac)
         else None)"

definition shapeParse :: "string \<Rightarrow> string \<Rightarrow> bool" where
  "shapeParse layout val =
     (length layout = length val
      \<and> list_all (\<lambda>(l, v). if isDigit l then isDigit v else l = v) (zip layout val))"

definition decimalLib :: "(int \<times> nat) golib" where
  "decimalLib = \<lparr>ParseFloat = decimalFloat, time_Parse = shapeParse\<rparr>"

text \<open>A Parquet writer that accepts every row and keeps the rows in its state.\<close>

definition keepRows :: "(int \<times> nat) jsonField list list \<Rightarrow> (int \<times> nat) jsonField list
    \<Rightarrow> err option \<times> (int \<times> nat) jsonField list list" where
  "keepRows pw row = (None, pw @ [row])"

text \<open>
  The file of the specification's scenario (header \<^verbatim>\<open>a,b\<close> and three rows), and an
  outside where every call succeeds; \<open>out\<close> is what \<^verbatim>\<open>os.Stat\<close> of the output
  file returns.
\<close>

definition exampleRows :: "csvRead list" where
  "exampleRows =
     [Row [''a'', ''b''], Row [''1'', ''foo''], Row [''2'', ''bar''], Row ['''', ''baz'']]"

definition exampleParquetIO :: "(int \<times> nat, (int \<times> nat) jsonField list list) parquetIO" where
  "exampleParquetIO =
     \<lparr>newLocalFileWriter = None, newJSONWriter = Inr [], openInput = Inr exampleRows,
      pwWrite = keepRows, pwWriteStop = (\<lambda>pw. None)\<rparr>"

definition exampleIO :: "err + int \<Rightarrow> (int \<times> nat, (int \<times> nat) jsonField list list) fileIO" where
  "exampleIO out =
     \<lparr>statInput = Inr 30, detectOpen = Inr exampleRows, mkdirAll = None,
      parquet = exampleParquetIO, statOutput = out, removeInput = None\<rparr>"

section \<open>The widening of types is the join table\<close>

text \<open>
  C1. On the four field types Int64, Float64, Bool and String, \<^const>\<open>widenType\<close> is
  the symmetric join table of the specification: it is commutative and idempotent,
  Int64 with Float64 gives Float64, Bool with any other type gives String, two Bool
  stay Bool, and String with anything gives String.
\<close>

theorem widenType_join_table:
  assumes "a \<in> set FieldTypes" and "b \<in> set FieldTypes"
  shows "widenType a b = joinTable a b
       \<and> widenType a b = widenType b a
       \<and> widenType a a = a
       \<and> widenType typeInt64 typeFloat64 = typeFloat64
       \<and> (a \<noteq> typeBool \<longrightarrow> widenType typeBool a = typeString)
       \<and> widenType typeBool typeBool = typeBool
       \<and> widenType typeString a = typeString"
  using assms by (auto simp: FieldTypes_def widenType_def)

theorem widenType_join_table_witness:
  "typeBool \<in> set FieldTypes \<and> typeInt64 \<in> set FieldTypes
   \<and> widenType typeBool typeInt64 = typeString
   \<and> widenType typeBool typeInt64 = widenType typeInt64 typeBool
   \<and> widenType typeBool typeBool = typeBool"
  using widenType_join_table [of typeBool typeInt64]
  by (simp add: FieldTypes_def widenType_def)

section \<open>The classification of a cell\<close>

lemma matchDate_String: "matchDate L layouts val = Some t \<Longrightarrow> t = typeString"
  by (induction layouts) (auto split: if_splits)

lemma lowerByte_t: "lowerByte c = CHR ''t'' \<longleftrightarrow> c = CHR ''t'' \<or> c = CHR ''T''"
  by (simp add: lowerByte_def)

lemma lowerByte_r: "lowerByte c = CHR ''r'' \<longleftrightarrow> c = CHR ''r'' \<or> c = CHR ''R''"
  by (simp add: lowerByte_def)

lemma lowerByte_u: "lowerByte c = CHR ''u'' \<longleftrightarrow> c = CHR ''u'' \<or> c = CHR ''U''"
  by (simp add: lowerByte_def)

lemma lowerByte_e: "lowerByte c = CHR ''e'' \<longleftrightarrow> c = CHR ''e'' \<or> c = CHR ''E''"
  by (simp add: lowerByte_def)

lemma lowerByte_f: "lowerByte c = CHR ''f'' \<longleftrightarrow> c = CHR ''f'' \<or> c = CHR ''F''"
  by (simp add: lowerByte_def)

lemma lowerByte_a: "lowerByte c = CHR ''a'' \<longleftrightarrow> c = CHR ''a'' \<or> c = CHR ''A''"
  by (simp add: lowerByte_def)

lemma lowerByte_l: "lowerByte c = CHR ''l'' \<longleftrightarrow> c = CHR ''l'' \<or> c = CHR ''L''"
  by (simp add: lowerByte_def)

lemma lowerByte_s: "lowerByte c = CHR ''s'' \<longleftrightarrow> c = CHR ''s'' \<or> c = CHR ''S''"
  by (simp add: lowerByte_def)

lemma ToLower_true:
  "ToLower v = ''true'' \<longleftrightarrow>
     (\<exists>a b c d. v = [a, b, c, d] \<and> (a = CHR ''t'' \<or> a = CHR ''T'')
        \<and> (b = CHR ''r'' \<or> b = CHR ''R'') \<and> (c = CHR ''u'' \<or> c = CHR ''U'')
        \<and> (d = CHR ''e'' \<or> d = CHR ''E''))"
proof
  assume "ToLower v = ''true''"
  then obtain a b c d where "v = [a, b, c, d]" "lowerByte a = CHR ''t''"
      "lowerByte b = CHR ''r''" "lowerByte c = CHR ''u''" "lowerByte d = CHR ''e''"
    unfolding ToLower_def by (auto simp: map_eq_Cons_conv)
  then show "\<exists>a b c d. v = [a, b, c, d] \<and> (a = CHR ''t'' \<or> a = CHR ''T'')
        \<and> (b = CHR ''r'' \<or> b = CHR ''R'') \<and> (c = CHR ''u'' \<or> c = CHR ''U'')
        \<and> (d = CHR ''e'' \<or> d = CHR ''E'')"
    by (simp add: lowerByte_t lowerByte_r lowerByte_u lowerByte_e)
next
  assume "\<exists>a b c d. v = [a, b, c, d] \<and> (a = CHR ''t'' \<or> a = CHR ''T'')
        \<and> (b = CHR ''r'' \<or> b = CHR ''R'') \<and> (c = CHR ''u'' \<or> c = CHR ''U'')
        \<and> (d = CHR ''e'' \<or> d = CHR ''E'')"
  then obtain a b c d where "v = [a, b, c, d]" "lowerByte a = CHR ''t''"
      "lowerByte b = CHR ''r''" "lowerByte c = CHR ''u''" "lowerByte d = CHR ''e''"
    unfolding lowerByte_t lowerByte_r lowerByte_u lowerByte_e by blast
  then show "ToLower v = ''true''" by (simp add: ToLower_def)
qed

lemma ToLower_false:
  "ToLower v = ''false'' \<longleftrightarrow>
     (\<exists>a b c d e. v = [a, b, c, d, e] \<and> (a = CHR ''f'' \<or> a = CHR ''F'')
        \<and> (b = CHR ''a'' \<or> b = CHR ''A'') \<and> (c = CHR ''l'' \<or> c = CHR ''L'')
        \<and> (d = CHR ''s'' \<or> d = CHR ''S'') \<and> (e = CHR ''e'' \<or> e = CHR ''E''))"
proof
  assume "ToLower v = ''false''"
  then obtain a b c d e where "v = [a, b, c, d, e]" "lowerByte a = CHR ''f''"
      "lowerByte b = CHR ''a''" "lowerByte c = CHR ''l''" "lowerByte d = CHR ''s''"
      "lowerByte e = CHR ''e''"
    unfolding ToLower_def by (auto simp: map_eq_Cons_conv)
  then show "\<exists>a b c d e. v = [a, b, c, d, e] \<and> (a = CHR ''f'' \<or> a = CHR ''F'')
        \<and> (b = CHR ''a'' \<or> b = CHR ''A'') \<and> (c = CHR ''l'' \<or> c = CHR ''L'')
        \<and> (d = CHR ''s'' \<or> d = CHR ''S'') \<and> (e = CHR ''e'' \<or> e = CHR ''E'')"
    by (simp add: lowerByte_f lowerByte_a lowerByte_l lowerByte_s lowerByte_e)
next
  assume "\<exists>a b c d e. v = [a, b, c, d, e] \<and> (a = CHR ''f'' \<or> a = CHR ''F'')
        \<and> (b = CHR ''a'' \<or> b = CHR ''A'') \<and> (c = CHR ''l'' \<or> c = CHR ''L'')
        \<and> (d = CHR ''s'' \<or> d = CHR ''S'') \<and> (e = CHR ''e'' \<or> e = CHR ''E'')"
  then obtain a b c d e where "v = [a, b, c, d, e]" "lowerByte a = CHR ''f''"
      "lowerByte b = CHR ''a''" "lowerByte c = CHR ''l''" "lowerByte d = CHR ''s''"
      "lowerByte e = CHR ''e''"
    unfolding lowerByte_f lowerByte_a lowerByte_l lowerByte_s lowerByte_e by blast
  then show "ToLower v = ''false''" by (simp add: ToLower_def)
qed

text \<open>
  C3. A cell that is not empty once trimmed is classified on its trimmed value, in
  this order: \<^verbatim>\<open>true\<close> or \<^verbatim>\<open>false\<close> in any mix of upper and lower case is Bool;
  else a value that \<^verbatim>\<open>ParseInt\<close> accepts is Int64; else a value that
  \<^verbatim>\<open>ParseFloat\<close> accepts is Float64; every other value is String, whether or not
  one of the six date layouts parses it, and no value is given a date type.
\<close>

theorem inferType_priority:
  assumes "TrimSpace raw \<noteq> []"
  shows "inferType L raw =
           (if ToLower (TrimSpace raw) = ''true'' \<or> ToLower (TrimSpace raw) = ''false''
            then typeBool
            else if ParseInt (TrimSpace raw) \<noteq> None then typeInt64
            else if ParseFloat L (TrimSpace raw) \<noteq> None then typeFloat64
            else typeString)
       \<and> (ToLower (TrimSpace raw) = ''true'') =
           (\<exists>a b c d. TrimSpace raw = [a, b, c, d] \<and> (a = CHR ''t'' \<or> a = CHR ''T'')
              \<and> (b = CHR ''r'' \<or> b = CHR ''R'') \<and> (c = CHR ''u'' \<or> c = CHR ''U'')
              \<and> (d = CHR ''e'' \<or> d = CHR ''E''))
       \<and> (ToLower (TrimSpace raw) = ''false'') =
           (\<exists>a b c d e. TrimSpace raw = [a, b, c, d, e] \<and> (a = CHR ''f'' \<or> a = CHR ''F'')
              \<and> (b = CHR ''a'' \<or> b = CHR ''A'') \<and> (c = CHR ''l'' \<or> c = CHR ''L'')
              \<and> (d = CHR ''s'' \<or> d = CHR ''S'') \<and> (e = CHR ''e'' \<or> e = CHR ''E''))
       \<and> inferType L raw \<noteq> typeDate \<and> inferType L raw \<noteq> typeTimestamp
       \<and> length dateFormats = 6"
proof -
  have "inferType L raw =
           (if ToLower (TrimSpace raw) = ''true'' \<or> ToLower (TrimSpace raw) = ''false''
            then typeBool
            else if ParseInt (TrimSpace raw) \<noteq> None then typeInt64
            else if ParseFloat L (TrimSpace raw) \<noteq> None then typeFloat64
            else typeString)"
    using assms
    by (auto simp: inferType_def Let_def split: option.splits dest: matchDate_String)
  moreover from this have "inferType L raw \<noteq> typeDate \<and> inferType L raw \<noteq> typeTimestamp"
    by (simp split: if_splits)
  moreover have "length dateFormats = 6"
    by (simp add: dateFormats_def)
  moreover note ToLower_true [of "TrimSpace raw"] ToLower_false [of "TrimSpace raw"]
  ultimately show ?thesis by blast
qed

theorem inferType_priority_witness:
  "TrimSpace ''False '' \<noteq> [] \<and> inferType decimalLib ''False '' = typeBool
   \<and> TrimSpace '' 42 '' \<noteq> [] \<and> inferType decimalLib '' 42 '' = typeInt64
   \<and> TrimSpace ''1.5'' \<noteq> [] \<and> inferType decimalLib ''1.5'' = typeFloat64
   \<and> TrimSpace ''2024-01-02'' \<noteq> [] \<and> inferType decimalLib ''2024-01-02'' = typeString"
proof -
  have ne: "TrimSpace ''False '' \<noteq> []" "TrimSpace '' 42 '' \<noteq> []"
    "TrimSpace ''1.5'' \<noteq> []" "TrimSpace ''2024-01-02'' \<noteq> []"
    by code_simp+
  show ?thesis
    using inferType_priority [where L = decimalLib, OF ne(1), THEN conjunct1]
      inferType_priority [where L = decimalLib, OF ne(2), THEN conjunct1]
      inferType_priority [where L = decimalLib, OF ne(3), THEN conjunct1]
      inferType_priority [where L = decimalLib, OF ne(4), THEN conjunct1]
    by code_simp
qed

section \<open>The normalization of the headers\<close>

lemma ReplaceAll_byte:
  "ReplaceAll s [a] [b] = map (\<lambda>c. if c = a then b else c) s"
  by (induction s) (auto simp: HasPrefix_def)

lemma replace_space_dot:
  "ReplaceAll (ReplaceAll s '' '' ''_'') ''.'' ''_'' =
     map (\<lambda>c. if c = CHR '' '' \<or> c = CHR ''.'' then CHR ''_'' else c) s"
  by (induction s) (simp_all add: ReplaceAll_byte)

lemma decimal_digits: "set (decimal n) \<subseteq> set ''0123456789''"
proof (induction n rule: decimal.induct)
  case (1 n)
  have d: "''0123456789'' ! k \<in> set ''0123456789''" if "k < 10" for k
    using that by (intro nth_mem) simp
  show ?case
  proof (cases "n < 10")
    case True
    then show ?thesis using d [of n] by (subst decimal.simps) simp
  next
    case False
    have "n mod 10 < 10" by simp
    with False 1 d [of "n mod 10"] show ?thesis by (subst decimal.simps) auto
  qed
qed

lemma decimal_nonempty: "decimal n \<noteq> []"
  by (subst decimal.simps) simp

lemma cleanHeaders_zip:
  "cleanHeaders k hs = map (\<lambda>(i, h). cleanHeader i h) (zip [k..<k + length hs] hs)"
proof (induction hs arbitrary: k)
  case Nil
  show ?case by simp
next
  case (Cons h hs)
  have "[k..<k + length (h # hs)] = k # [Suc k..<Suc k + length hs]"
    by (subst upt_rec) simp
  with Cons [of "Suc k"] show ?case by simp
qed

lemma length_cleanHeaders: "length (cleanHeaders k hs) = length hs"
  by (induction hs arbitrary: k) simp_all

text \<open>
  C6. Every header is normalized by the same function of its text and its zero-based
  position: the leading byte-order mark is stripped, then the surrounding white space;
  every space and every dot becomes an underscore; an empty result is replaced by
  \<^verbatim>\<open>column_\<close> followed by the position. So \<^verbatim>\<open>" Name."\<close> becomes \<^verbatim>\<open>Name_\<close>, the
  empty header at position 2 becomes \<^verbatim>\<open>column_2\<close>, and a normalized header is never
  empty and has no space and no dot.
\<close>

theorem cleanHeader_normalizes:
  "cleanHeader i h =
     (let t = map (\<lambda>c. if c = CHR '' '' \<or> c = CHR ''.'' then CHR ''_'' else c)
                (TrimSpace (TrimPrefix h BOM))
      in if t = [] then ''column_'' @ decimal i else t)
   \<and> cleanHeaders 0 hs = map (\<lambda>(i, h). cleanHeader i h) (zip [0..<length hs] hs)
   \<and> cleanHeader i '' Name.'' = ''Name_''
   \<and> cleanHeader 2 [] = ''column_2''
   \<and> CHR '' '' \<notin> set (cleanHeader i h) \<and> CHR ''.'' \<notin> set (cleanHeader i h)
   \<and> cleanHeader i h \<noteq> []"
proof -
  have eq: "cleanHeader j g =
      (if map (\<lambda>c. if c = CHR '' '' \<or> c = CHR ''.'' then CHR ''_'' else c)
              (TrimSpace (TrimPrefix g BOM)) = []
       then ''column_'' @ decimal j
       else map (\<lambda>c. if c = CHR '' '' \<or> c = CHR ''.'' then CHR ''_'' else c)
              (TrimSpace (TrimPrefix g BOM)))" for j g
    by (simp add: cleanHeader_def Let_def replace_space_dot)
  have name: "TrimSpace (TrimPrefix '' Name.'' BOM) = ''Name.''" by code_simp
  have empty: "TrimSpace (TrimPrefix [] BOM) = []" by code_simp
  have two: "decimal 2 = ''2''" by code_simp
  have nosp: "CHR '' '' \<notin> set (decimal i)" "CHR ''.'' \<notin> set (decimal i)"
    using decimal_digits [of i] by auto
  show ?thesis
    using nosp decimal_nonempty [of i] cleanHeaders_zip [of 0 hs]
    by (auto simp: eq name empty two Let_def)
qed

theorem cleanHeader_normalizes_witness:
  "cleanHeaders 0 [[CHR 0xEF, CHR 0xBB, CHR 0xBF] @ ''first name'', '' '', ''a.b '']
     = [''first_name'', ''column_1'', ''a_b'']"
  using cleanHeader_normalizes [of 0 "[CHR 0xEF, CHR 0xBB, CHR 0xBF] @ ''first name''" "[]"]
  by code_simp

section \<open>Sampling\<close>

lemma empty_cell_unchanged:
  "observeRow L ([] # vals) (t # types) = t # observeRow L vals types"
  by simp

lemma blank_cell_widens:
  assumes "val \<noteq> []" and "TrimSpace val = []"
  shows "observeRow L (val # vals) (t # types) = typeString # observeRow L vals types"
  using assms by (simp add: inferType_def widenType_def)

text \<open>
  C2. A cell that is empty once trimmed should leave the type of its column unchanged.
  \<^const>\<open>observeRow\<close> skips a cell only when it is the empty string as read
  (\<open>empty_cell_unchanged\<close>); a cell of white space only reaches \<^const>\<open>inferType\<close>,
  which trims it and answers String, so the column is widened to String
  (\<open>blank_cell_widens\<close>). On the column with the cells \<^verbatim>\<open>1\<close>, one space, \<^verbatim>\<open>2\<close>
  the detected type is String, where the cells \<^verbatim>\<open>1\<close>, \<^verbatim>\<open>2\<close> and the cells
  \<^verbatim>\<open>1\<close>, empty, \<^verbatim>\<open>2\<close> give Int64; the encoder trims first and omits the same
  cell.
\<close>

theorem whitespace_cell_widens_to_String:
  "detectSchema decimalLib (Inr [Row [''a''], Row [''1''], Row ['' ''], Row [''2'']]) 100
     = Inr ([''a''], [typeString])
   \<and> detectSchema decimalLib (Inr [Row [''a''], Row [''1''], Row [''2'']]) 100
     = Inr ([''a''], [typeInt64])
   \<and> detectSchema decimalLib (Inr [Row [''a''], Row [''1''], Row [''''], Row [''2'']]) 100
     = Inr ([''a''], [typeInt64])
   \<and> recordToJSON decimalLib ['' ''] [''a''] [typeInt64] = Inr []"
  by code_simp

lemma sampleLoop_closed:
  "sampleLoop L n r types k =
     (foldl (\<lambda>ts cells. observeRow L cells ts) types (goodRows (take n r)),
      k + min n (Suc (length r)))"
proof (induction L n r types k rule: sampleLoop.induct)
qed simp_all

text \<open>
  C4. Sampling makes at most \<open>n\<close> reads, \<open>n\<close> being the configured number of sample
  rows: the final types are those of the records among the first \<open>n\<close> results of
  the reader, folded from types that are all Int64. A malformed row takes one of the
  \<open>n\<close> reads and leaves the types as they are; the end of the input stops the loop.
\<close>

theorem sampling_budget:
  "snd (sampleLoop L n r types 0) = min n (Suc (length r))
   \<and> snd (sampleLoop L n r types 0) \<le> n
   \<and> fst (sampleLoop L n r types 0)
       = foldl (\<lambda>ts cells. observeRow L cells ts) types (goodRows (take n r))
   \<and> sampleLoop L (Suc n) (Malformed e # r) types k = sampleLoop L n r types (Suc k)
   \<and> sampleLoop L (Suc n) [] types k = (types, Suc k)
   \<and> detectSchema L (Inr (Row hs # r)) sampleRows
       = Inr (cleanHeaders 0 hs,
              foldl (\<lambda>ts cells. observeRow L cells ts) (replicate (length hs) typeInt64)
                (goodRows (take (nat sampleRows) r)))"
  by (simp add: sampleLoop_closed detectSchema_def Let_def length_cleanHeaders)

theorem sampling_budget_witness:
  "sampleLoop decimalLib 2 [Malformed (GoError ''bare quote''), Row [''1.5''], Row [''x'']]
     [typeInt64] 0 = ([typeFloat64], 2)
   \<and> sampleLoop decimalLib 2 [Row [''7'']] [typeInt64] 0 = ([typeInt64], 2)"
  using sampling_budget [of decimalLib 2
      "[Malformed (GoError ''bare quote''), Row [''1.5''], Row [''x'']]" "[typeInt64]"]
  by code_simp

section \<open>The encoded row\<close>

lemma encodeCell_present:
  "cellOf row i \<noteq> [] \<Longrightarrow>
   (encodeCell L (types ! i) (cellOf row i) \<noteq> None) = fieldPresent L row types i"
  by (auto simp: cellOf_def encodeCell_def fieldPresent_def split: fieldType.splits if_splits)

lemma empty_cell_absent: "cellOf row i = [] \<Longrightarrow> \<not> fieldPresent L row types i"
  by (auto simp: cellOf_def fieldPresent_def split: if_splits)

lemma encodeFields_filter:
  "i + length hs \<le> length types \<Longrightarrow>
   encodeFields L row types i hs parts =
     Inr (parts @ map (\<lambda>j. (hs ! (j - i), the (encodeCell L (types ! j) (cellOf row j))))
                    (filter (fieldPresent L row types) [i..<i + length hs]))"
proof (induction hs arbitrary: i parts)
  case Nil
  show ?case by simp
next
  case (Cons h hs)
  let ?f = "\<lambda>j. (hs ! (j - Suc i), the (encodeCell L (types ! j) (cellOf row j)))"
  let ?g = "\<lambda>j. ((h # hs) ! (j - i), the (encodeCell L (types ! j) (cellOf row j)))"
  let ?rest = "filter (fieldPresent L row types) [Suc i..<Suc (i + length hs)]"
  have upt: "[i..<Suc (i + length hs)] = i # [Suc i..<Suc (i + length hs)]"
    by (subst upt_rec) simp
  have shift: "map ?g ?rest = map ?f ?rest"
  proof (rule map_cong [OF refl])
    fix j assume "j \<in> set ?rest"
    then have "i < j" by auto
    then have "j - i = Suc (j - Suc i)" by simp
    then show "?g j = ?f j" by simp
  qed
  have IH: "encodeFields L row types (Suc i) hs ps = Inr (ps @ map ?f ?rest)" for ps
    using Cons.IH [of "Suc i" ps] Cons.prems by (simp del: upt_Suc)
  have i: "i < length types" using Cons.prems by simp
  show ?case
  proof (cases "cellOf row i = []")
    case True
    then show ?thesis
      using empty_cell_absent [OF True, of L types] by (simp add: IH upt shift del: upt_Suc)
  next
    case False
    show ?thesis
    proof (cases "encodeCell L (types ! i) (cellOf row i)")
      case None
      with encodeCell_present [OF False, of L types] have "\<not> fieldPresent L row types i"
        by simp
      with None False i show ?thesis by (simp add: IH upt shift del: upt_Suc)
    next
      case (Some v)
      with encodeCell_present [OF False, of L types] have "fieldPresent L row types i"
        by simp
      with Some False i show ?thesis by (simp add: IH upt shift del: upt_Suc)
    qed
  qed
qed

text \<open>
  C5. For a schema (as many types as headers) and any row, the encoder returns
  without a panic, and the encoded row has, in the order of the columns, one field for
  exactly the columns \<open>i\<close> such that the row has a cell at \<open>i\<close>, the cell is not empty
  once trimmed, and it parses as an integer when the type of the column is Int64, as a
  float when it is Float64. A column past the end of a short row has no field.
\<close>

theorem recordToJSON_sparse:
  assumes "length types = length headers"
  shows "recordToJSON L row headers types =
           Inr (map (\<lambda>i. (headers ! i, the (encodeCell L (types ! i) (cellOf row i))))
                  (filter (fieldPresent L row types) [0..<length headers]))
       \<and> (\<forall>i < length headers.
             fieldPresent L row types i =
               (cellOf row i \<noteq> [] \<and> encodeCell L (types ! i) (cellOf row i) \<noteq> None))
       \<and> (\<forall>i. length row \<le> i \<longrightarrow> \<not> fieldPresent L row types i)"
proof -
  have "recordToJSON L row headers types =
           Inr (map (\<lambda>i. (headers ! i, the (encodeCell L (types ! i) (cellOf row i))))
                  (filter (fieldPresent L row types) [0..<length headers]))"
    using encodeFields_filter [of 0 headers types L row "[]"] assms
    by (simp add: recordToJSON_def)
  moreover have "fieldPresent L row types i =
      (cellOf row i \<noteq> [] \<and> encodeCell L (types ! i) (cellOf row i) \<noteq> None)" for i
    using encodeCell_present [of row i L types] empty_cell_absent [of row i L types]
    by blast
  moreover have "\<not> fieldPresent L row types i" if "length row \<le> i" for i
    using that by (simp add: fieldPresent_def)
  ultimately show ?thesis by blast
qed

theorem recordToJSON_sparse_witness:
  "length [typeInt64, typeFloat64, typeString, typeBool] = length [''a'', ''b'', ''c'', ''d'']
   \<and> recordToJSON decimalLib [''x'', '' 2.5 '', ''  '']
        [''a'', ''b'', ''c'', ''d''] [typeInt64, typeFloat64, typeString, typeBool]
      = Inr [(''b'', JFloat (25, 1))]
   \<and> filter (fieldPresent decimalLib [''x'', '' 2.5 '', ''  '']
        [typeInt64, typeFloat64, typeString, typeBool]) [0..<4] = [1]"
proof -
  have len: "length [typeInt64, typeFloat64, typeString, typeBool]
      = length [''a'', ''b'', ''c'', ''d'']"
    by simp
  note enc = recordToJSON_sparse [where L = decimalLib and row = "[''x'', '' 2.5 '', ''  '']",
      OF len, THEN conjunct1]
  show ?thesis using enc by code_simp
qed

section \<open>The streaming loop and the verification of the output\<close>

lemma recordToJSON_total:
  "length types = length headers \<Longrightarrow> \<exists>encoded. recordToJSON L row headers types = Inr encoded"
  using encodeFields_filter [of 0 headers types L row "[]"] by (simp add: recordToJSON_def)

lemma writeLoop_total:
  assumes "batchSize \<noteq> 0" and "length types = length headers"
  shows "\<exists>out. writeLoop L w headers types batchSize r pw n logged = Inr out"
proof (induction r arbitrary: pw n logged)
  case Nil
  show ?case by simp
next
  case (Cons x r)
  show ?case
  proof (cases x)
    case (Malformed e)
    with Cons show ?thesis by simp
  next
    case (Row cells)
    obtain encoded where f: "recordToJSON L cells headers types = Inr encoded"
      using recordToJSON_total [OF assms(2)] by blast
    obtain eo pw' where w: "w pw encoded = (eo, pw')" by (cases "w pw encoded")
    show ?thesis
    proof (cases eo)
      case None
      with Row f w assms(1) Cons show ?thesis by (simp add: goRem_def)
    next
      case (Some e)
      with Row f w Cons show ?thesis by simp
    qed
  qed
qed

lemma writeLoop_zero:
  "writeLoop L w headers types 0 r pw n logged = Inr (pw', n', logged') \<Longrightarrow> n' = n"
proof (induction r arbitrary: pw logged)
  case Nil
  then show ?case by simp
next
  case (Cons x r)
  show ?case
  proof (cases x)
    case (Malformed e)
    with Cons show ?thesis by simp
  next
    case (Row cells)
    with Cons show ?thesis
      by (auto simp: goRem_def split: sum.splits option.splits prod.splits)
  qed
qed

lemma writeParquet_total:
  assumes "batchSize \<noteq> 0" and "length types = length headers"
  shows "\<exists>out. writeParquet L io inputFile outFile headers types batchSize = Inr out"
proof (cases "newLocalFileWriter io")
  case (Some e)
  then show ?thesis by (simp add: writeParquet_def)
next
  case None
  note created = None
  show ?thesis
  proof (cases "newJSONWriter io")
    case (Inl e)
    with created show ?thesis by (simp add: writeParquet_def)
  next
    case (Inr pw)
    note writer = Inr
    show ?thesis
    proof (cases "openInput io")
      case (Inl e)
      with created writer show ?thesis by (simp add: writeParquet_def)
    next
      case (Inr reads)
      show ?thesis
      proof (cases reads)
        case Nil
        with created writer Inr show ?thesis by (simp add: writeParquet_def)
      next
        case (Cons x r)
        show ?thesis
        proof (cases x)
          case (Malformed e)
          with created writer Inr Cons show ?thesis by (simp add: writeParquet_def)
        next
          case (Row header)
          obtain pw' n logged
            where "writeLoop L (pwWrite io) headers types batchSize r pw 0 [] = Inr (pw', n, logged)"
            using writeLoop_total [OF assms, of L "pwWrite io" r pw 0 "[]"] by auto
          with created writer Inr Cons Row show ?thesis
            by (cases "pwWriteStop io pw'") (simp_all add: writeParquet_def)
        qed
      qed
    qed
  qed
qed

lemma writeLoop_zero_panics:
  assumes "b \<noteq> 0"
  shows "writeLoop L w headers types b r pw n logged = Inr (pw1, n1, logged1) \<Longrightarrow> n1 \<noteq> n
         \<Longrightarrow> writeLoop L w headers types 0 r pw n logged0 = Inl DivideByZero"
proof (induction r arbitrary: pw logged logged0)
  case Nil
  then show ?case by simp
next
  case (Cons x r)
  show ?case
  proof (cases x)
    case (Malformed e)
    with Cons show ?thesis by simp
  next
    case (Row cells)
    from Cons.prems(1) Row obtain encoded
      where enc: "recordToJSON L cells headers types = Inr encoded"
      by (cases "recordToJSON L cells headers types") auto
    obtain eo pw' where wr: "w pw encoded = (eo, pw')" by (cases "w pw encoded")
    show ?thesis
    proof (cases eo)
      case None
      with Row enc wr show ?thesis by (simp add: goRem_def)
    next
      case (Some e)
      with Row enc wr Cons.prems have
        "writeLoop L w headers types b r pw' n (logged @ [ErrorWritingRow (n + 1) e])
           = Inr (pw1, n1, logged1)"
        by simp
      from Cons.IH [OF this Cons.prems(2)] Some Row enc wr show ?thesis by simp
    qed
  qed
qed

lemma observeRow_length: "length (observeRow L cells types) = length types"
  by (induction L cells types rule: observeRow.induct) simp_all

lemma sampleLoop_length: "length (fst (sampleLoop L n r types k)) = length types"
  by (induction L n r types k rule: sampleLoop.induct) (simp_all add: observeRow_length)

lemma detectSchema_lengths:
  "detectSchema L opened sampleRows = Inr (headers, types) \<Longrightarrow> length types = length headers"
  by (auto simp: detectSchema_def Let_def sampleLoop_length length_cleanHeaders
      split: sum.splits list.splits csvRead.splits)

lemma writeParquet_zero:
  assumes "newLocalFileWriter io = None" and "newJSONWriter io = Inr pw"
    and "openInput io = Inr (Row header # r)"
    and "writeLoop L (pwWrite io) headers types 0 r pw 0 [] = Inl p"
  shows "writeParquet L io inputFile outFile headers types 0 = Inl p"
  using assms by (simp add: writeParquet_def)

lemma convertFile_panics:
  assumes "statInput io = Inr inSize"
    and "detectSchema L (detectOpen io) (SampleRows cfg) = Inr (headers, types)"
    and "OutputDir cfg = [] \<or> mkdirAll io = None"
    and "writeParquet L (parquet io) inputFile (outputPath inputFile cfg) headers types
           (BatchSize cfg) = Inl p"
  shows "convertFile L io inputFile cfg = Inl p"
proof -
  have "(if OutputDir cfg \<noteq> [] then mkdirAll io else None) = None"
    using assms(3) by auto
  with assms(1,2,4) show ?thesis by (simp add: convertFile_def Let_def)
qed

lemma convertFile_total:
  assumes "BatchSize cfg \<noteq> 0"
  shows "\<exists>out. convertFile L io inputFile cfg = Inr out"
proof (cases "statInput io")
  case (Inl e)
  then show ?thesis by (simp add: convertFile_def)
next
  case (Inr inSize)
  note stat = Inr
  show ?thesis
  proof (cases "detectSchema L (detectOpen io) (SampleRows cfg)")
    case (Inl e)
    with stat show ?thesis by (simp add: convertFile_def Let_def)
  next
    case (Inr schema)
    then obtain headers types
      where det: "detectSchema L (detectOpen io) (SampleRows cfg) = Inr (headers, types)"
      by (cases schema) auto
    note len = detectSchema_lengths [OF det]
    show ?thesis
    proof (cases "if OutputDir cfg \<noteq> [] then mkdirAll io else None")
      case (Some e)
      with stat det show ?thesis by (simp add: convertFile_def Let_def)
    next
      case None
      obtain we wops
        where wr: "writeParquet L (parquet io) inputFile (outputPath inputFile cfg) headers
              types (BatchSize cfg) = Inr (we, wops)"
        using writeParquet_total [OF assms len, of L "parquet io" inputFile
            "outputPath inputFile cfg"]
        by auto
      show ?thesis
      proof (cases we)
        case (Some e)
        with stat det None wr show ?thesis by (simp add: convertFile_def Let_def)
      next
        case noerr: None
        show ?thesis
        proof (cases "statOutput io")
          case (Inl e)
          with stat det None wr noerr show ?thesis by (simp add: convertFile_def Let_def)
        next
          case (Inr outSize)
          with stat det None wr noerr show ?thesis
            by (cases "outSize = 0") (simp_all add: convertFile_def Let_def)
        qed
      qed
    qed
  qed
qed

text \<open>
  C10. For every batch size of at least 1 the remainder of the row count by the batch
  size is defined at every row, and neither the streaming loop, nor \<^verbatim>\<open>writeParquet\<close>
  (on a schema with as many types as headers), nor \<^verbatim>\<open>convertFile\<close> panics. Nothing
  guards a batch size of 0, in the loop, in \<^verbatim>\<open>writeParquet\<close> or in
  \<^verbatim>\<open>convertFile\<close>: the remainder then panics with a division by zero at the first
  row that is read, encoded and written. So whenever the streaming pass writes at
  least one row with a batch size of at least 1, the same pass with the batch size 0
  ends in that panic, for the loop, for \<^verbatim>\<open>writeParquet\<close> and for
  \<^verbatim>\<open>convertFile\<close>, and the loop returns at 0 only when no row was written.
  \<^verbatim>\<open>config.Load\<close> passes on the batch size of the configuration file, 0 included,
  when the flag does not replace it.
\<close>

theorem progress_modulo_defined:
  assumes "1 \<le> batchSize" and "length types = length headers"
  shows "(\<exists>m. goRem k batchSize = Inr m)
       \<and> (\<exists>out. writeLoop L w headers types batchSize r pw n logged = Inr out)
       \<and> (\<exists>out. writeParquet L io inputFile outFile headers types batchSize = Inr out)
       \<and> (1 \<le> BatchSize cfg' \<longrightarrow> (\<exists>out. convertFile L fio inputFile cfg' = Inr out))
       \<and> goRem k 0 = Inl DivideByZero
       \<and> (recordToJSON L row headers types = Inr encoded \<and> fst (w pw encoded) = None
            \<longrightarrow> writeLoop L w headers types 0 (Row row # r) pw n logged = Inl DivideByZero)
       \<and> (\<forall>pw' n' logged'.
             writeLoop L w headers types 0 r pw n logged = Inr (pw', n', logged') \<longrightarrow> n' = n)
       \<and> (\<forall>pw' n' logged'.
             writeLoop L w headers types batchSize r pw n logged = Inr (pw', n', logged')
             \<and> n' \<noteq> n
             \<longrightarrow> writeLoop L w headers types 0 r pw n logged = Inl DivideByZero)
       \<and> (\<forall>header pw' n' logged'.
             newLocalFileWriter io = None \<and> newJSONWriter io = Inr pw
             \<and> openInput io = Inr (Row header # r)
             \<and> writeLoop L (pwWrite io) headers types batchSize r pw 0 [] = Inr (pw', n', logged')
             \<and> n' \<noteq> 0
             \<longrightarrow> writeParquet L io inputFile outFile headers types 0 = Inl DivideByZero)
       \<and> (\<forall>inSize header pw' n' logged'.
             statInput fio = Inr inSize
             \<and> detectSchema L (detectOpen fio) (SampleRows cfg') = Inr (headers, types)
             \<and> (OutputDir cfg' = [] \<or> mkdirAll fio = None)
             \<and> newLocalFileWriter (parquet fio) = None \<and> newJSONWriter (parquet fio) = Inr pw
             \<and> openInput (parquet fio) = Inr (Row header # r)
             \<and> writeLoop L (pwWrite (parquet fio)) headers types batchSize r pw 0 []
                 = Inr (pw', n', logged')
             \<and> n' \<noteq> 0 \<and> BatchSize cfg' = 0
             \<longrightarrow> convertFile L fio inputFile cfg' = Inl DivideByZero)
       \<and> (Load fl (Inr (Inr y)) = Inr cfg \<and> flagBatchSize fl \<le> 0 \<and> yamlBatchSize y = Some b
            \<longrightarrow> BatchSize cfg = b)"
proof -
  from assms(1) have nz: "batchSize \<noteq> 0" by simp
  have "\<exists>m. goRem k batchSize = Inr m"
    using nz by (simp add: goRem_def)
  moreover note writeLoop_total [OF nz assms(2), of L w r pw n logged]
  moreover note writeParquet_total [OF nz assms(2), of L io inputFile outFile]
  moreover have "\<exists>out. convertFile L fio inputFile cfg' = Inr out" if "1 \<le> BatchSize cfg'"
    using that convertFile_total [of cfg' L fio inputFile] by simp
  moreover have "goRem k 0 = Inl DivideByZero"
    by (simp add: goRem_def)
  moreover have "writeLoop L w headers types 0 (Row row # r) pw n logged = Inl DivideByZero"
    if "recordToJSON L row headers types = Inr encoded" and "fst (w pw encoded) = None"
    using that by (cases "w pw encoded") (simp add: goRem_def)
  moreover have "n' = n"
    if "writeLoop L w headers types 0 r pw n logged = Inr (pw', n', logged')" for pw' n' logged'
    using that by (rule writeLoop_zero)
  moreover have "writeLoop L w headers types 0 r pw n logged = Inl DivideByZero"
    if "writeLoop L w headers types batchSize r pw n logged = Inr (pw', n', logged')"
      and "n' \<noteq> n" for pw' n' logged'
    using that by (rule writeLoop_zero_panics [OF nz])
  moreover have "writeParquet L io inputFile outFile headers types 0 = Inl DivideByZero"
    if "newLocalFileWriter io = None" and "newJSONWriter io = Inr pw"
      and "openInput io = Inr (Row header # r)"
      and "writeLoop L (pwWrite io) headers types batchSize r pw 0 [] = Inr (pw', n', logged')"
      and "n' \<noteq> 0" for header pw' n' logged'
    using that(1-3) writeLoop_zero_panics [OF nz that(4,5)] by (rule writeParquet_zero)
  moreover have "convertFile L fio inputFile cfg' = Inl DivideByZero"
    if "statInput fio = Inr inSize"
      and "detectSchema L (detectOpen fio) (SampleRows cfg') = Inr (headers, types)"
      and "OutputDir cfg' = [] \<or> mkdirAll fio = None"
      and "newLocalFileWriter (parquet fio) = None" and "newJSONWriter (parquet fio) = Inr pw"
      and "openInput (parquet fio) = Inr (Row header # r)"
      and "writeLoop L (pwWrite (parquet fio)) headers types batchSize r pw 0 []
                 = Inr (pw', n', logged')"
      and "n' \<noteq> 0" and "BatchSize cfg' = 0" for inSize header pw' n' logged'
  proof -
    have "writeParquet L (parquet fio) inputFile (outputPath inputFile cfg') headers types 0
        = Inl DivideByZero"
      using that(4-6) writeLoop_zero_panics [OF nz that(7,8)] by (rule writeParquet_zero)
    with that(1-3,9) show ?thesis by (simp add: convertFile_panics)
  qed
  moreover have "BatchSize cfg = b"
    if "Load fl (Inr (Inr y)) = Inr cfg" and "flagBatchSize fl \<le> 0" and "yamlBatchSize y = Some b"
    using that
    by (auto simp: Load_def Let_def overrideFlags_def Unmarshal_def orElse_def split: if_splits)
  ultimately show ?thesis by blast
qed

theorem progress_modulo_defined_witness:
  "(1::int) \<le> 2 \<and> length [typeInt64, typeString] = length [''a'', ''b'']
   \<and> (\<exists>out. writeLoop decimalLib keepRows [''a'', ''b''] [typeInt64, typeString] 2
               (tl exampleRows) [] 0 [] = Inr out)
   \<and> writeLoop decimalLib keepRows [''a'', ''b''] [typeInt64, typeString] 2
        (tl exampleRows) [] 0 []
      = Inr ([[(''a'', JInt 1), (''b'', JString ''foo'')],
              [(''a'', JInt 2), (''b'', JString ''bar'')],
              [(''b'', JString ''baz'')]], 3, [ProcessedRows 2])
   \<and> writeLoop decimalLib keepRows [''a'', ''b''] [typeInt64, typeString] 0
        (tl exampleRows) [] 0 [] = Inl DivideByZero
   \<and> Load \<lparr>flagConfig = ''config.yaml'', flagInput = ''in/x.csv'', flagOutput = [],
             flagKeep = False, flagLogLevel = [], flagBatchSize = 0, flagDelimiter = [],
             flagSampleRows = 0\<rparr>
          (Inr (Inr \<lparr>yamlInput = None, yamlOutput = None, yamlDeleteOriginal = None,
                      yamlLogLevel = None, yamlBatchSize = Some 0, yamlDelimiter = None,
                      yamlSampleRows = None\<rparr>))
      = Inr \<lparr>InputPath = ''in/x.csv'', OutputDir = [], DeleteOriginal = True,
              LogLevel = ''info'', BatchSize = 0, Delimiter = '','', SampleRows = 100\<rparr>
   \<and> convertFile decimalLib (exampleIO (Inr 412)) ''in/x.csv''
        \<lparr>InputPath = ''in/x.csv'', OutputDir = [], DeleteOriginal = True,
          LogLevel = ''info'', BatchSize = 0, Delimiter = '','', SampleRows = 100\<rparr>
      = Inl DivideByZero"
proof -
  let ?cfg = "\<lparr>InputPath = ''in/x.csv'', OutputDir = [], DeleteOriginal = True,
          LogLevel = ''info'', BatchSize = 0, Delimiter = '','', SampleRows = 100\<rparr>"
  let ?rows = "[[(''a'', JInt 1), (''b'', JString ''foo'')],
              [(''a'', JInt 2), (''b'', JString ''bar'')],
              [(''b'', JString ''baz'')]]"
  have a: "(1::int) \<le> 2" by simp
  have b: "length [typeInt64, typeString] = length [''a'', ''b'']" by simp
  have ex: "\<exists>out. writeLoop decimalLib keepRows [''a'', ''b''] [typeInt64, typeString] 2
               (tl exampleRows) [] 0 [] = Inr out"
    by (rule progress_modulo_defined [OF a b, where L = decimalLib and w = keepRows
          and r = "tl exampleRows" and pw = "[]" and n = 0 and logged = "[]",
          THEN conjunct2, THEN conjunct1])
  have two: "writeLoop decimalLib keepRows [''a'', ''b''] [typeInt64, typeString] 2
        (tl exampleRows) [] 0 [] = Inr (?rows, 3, [ProcessedRows 2])"
    by code_simp
  have zero: "writeLoop decimalLib keepRows [''a'', ''b''] [typeInt64, typeString] 0
        (tl exampleRows) [] 0 [] = Inl DivideByZero"
    by code_simp
  have load: "Load \<lparr>flagConfig = ''config.yaml'', flagInput = ''in/x.csv'', flagOutput = [],
             flagKeep = False, flagLogLevel = [], flagBatchSize = 0, flagDelimiter = [],
             flagSampleRows = 0\<rparr>
          (Inr (Inr \<lparr>yamlInput = None, yamlOutput = None, yamlDeleteOriginal = None,
                      yamlLogLevel = None, yamlBatchSize = Some 0, yamlDelimiter = None,
                      yamlSampleRows = None\<rparr>)) = Inr ?cfg"
    by code_simp
  have h1: "statInput (exampleIO (Inr 412)) = Inr 30"
    by (simp add: exampleIO_def)
  have h2: "detectSchema decimalLib (detectOpen (exampleIO (Inr 412))) (SampleRows ?cfg)
      = Inr ([''a'', ''b''], [typeInt64, typeString])"
    by code_simp
  have h3: "OutputDir ?cfg = [] \<or> mkdirAll (exampleIO (Inr 412)) = None" by simp
  have h4: "newLocalFileWriter (parquet (exampleIO (Inr 412))) = None"
    and h5: "newJSONWriter (parquet (exampleIO (Inr 412))) = Inr []"
    and h6: "openInput (parquet (exampleIO (Inr 412))) = Inr (Row [''a'', ''b''] # tl exampleRows)"
    and h7: "pwWrite (parquet (exampleIO (Inr 412))) = keepRows"
    by (simp_all add: exampleIO_def exampleParquetIO_def exampleRows_def)
  have h8: "BatchSize ?cfg = 0" by simp
  have "convertFile decimalLib (exampleIO (Inr 412)) ''in/x.csv'' ?cfg = Inl DivideByZero"
    using progress_modulo_defined [OF a b, where L = decimalLib and fio = "exampleIO (Inr 412)"
        and cfg' = ?cfg and r = "tl exampleRows" and pw = "[]" and inputFile = "''in/x.csv''",
        THEN conjunct2, THEN conjunct2, THEN conjunct2, THEN conjunct2, THEN conjunct2,
        THEN conjunct2, THEN conjunct2, THEN conjunct2, THEN conjunct2, THEN conjunct1,
        rule_format, of 30 "[''a'', ''b'']" ?rows 3 "[ProcessedRows 2]"]
      h1 h2 h3 h4 h5 h6 h8 two [folded h7]
    by simp
  with a b ex two zero load show ?thesis by blast
qed

lemma writeParquet_ops:
  "writeParquet L io inputFile outFile headers types batchSize = Inr (e, wops)
   \<Longrightarrow> set wops \<subseteq> {Create outFile, Open inputFile}"
  unfolding writeParquet_def
  by (auto split: option.splits sum.splits list.splits csvRead.splits prod.splits)

text \<open>
  C8. When the input was found, the schema detected, the output directory prepared
  and \<^verbatim>\<open>writeParquet\<close> returned no error, \<^verbatim>\<open>convertFile\<close> stats the output file. If
  that fails or the size is 0, the result carries the error \<^verbatim>\<open>output verification
  failed\<close>, its output size stays 0 and nothing is removed; the output size is set,
  to a size that is not 0, only in a result without an error.
\<close>

theorem output_verification:
  assumes "statInput io = Inr inSize"
    and "detectSchema L (detectOpen io) (SampleRows cfg) = Inr (headers, types)"
    and "OutputDir cfg = [] \<or> mkdirAll io = None"
    and "writeParquet L (parquet io) inputFile (outputPath inputFile cfg) headers types
           (BatchSize cfg) = Inr (None, wops)"
  shows "\<exists>res ops. convertFile L io inputFile cfg = Inr (res, ops)
           \<and> Stat (outputPath inputFile cfg) \<in> set ops
           \<and> ((\<exists>e. statOutput io = Inl e) \<or> statOutput io = Inr 0
                \<longrightarrow> Err res = Some (GoError ''output verification failed'')
                    \<and> OutputSize res = 0 \<and> (\<forall>x. Remove x \<notin> set ops))
           \<and> (\<forall>n. statOutput io = Inr n \<and> n \<noteq> 0 \<longrightarrow> Err res = None \<and> OutputSize res = n)
           \<and> (OutputSize res \<noteq> 0 \<longrightarrow> Err res = None)"
proof -
  have noremove: "Remove x \<notin> set wops" for x
    using writeParquet_ops [OF assms(4)] by auto
  have mk: "(if OutputDir cfg \<noteq> [] then mkdirAll io else None) = None"
    using assms(3) by auto
  show ?thesis
  proof (cases "statOutput io")
    case (Inl e)
    then show ?thesis
      using assms(1,2,4) mk noremove by (simp add: convertFile_def Let_def)
  next
    case (Inr outSize)
    then show ?thesis
      using assms(1,2,4) mk noremove by (cases "outSize = 0") (simp_all add: convertFile_def Let_def)
  qed
qed

theorem output_verification_witness:
  "statInput (exampleIO (Inr 0)) = Inr 30
   \<and> detectSchema decimalLib (detectOpen (exampleIO (Inr 0))) (SampleRows defaults)
       = Inr ([''a'', ''b''], [typeInt64, typeString])
   \<and> writeParquet decimalLib (parquet (exampleIO (Inr 0))) ''in/x.csv''
         (outputPath ''in/x.csv'' defaults) [''a'', ''b''] [typeInt64, typeString]
         (BatchSize defaults)
       = Inr (None, [Create ''in/x.parquet'', Open ''in/x.csv''])
   \<and> (\<exists>res ops. convertFile decimalLib (exampleIO (Inr 0)) ''in/x.csv'' defaults = Inr (res, ops)
         \<and> Err res = Some (GoError ''output verification failed'') \<and> OutputSize res = 0)"
proof -
  have h1: "statInput (exampleIO (Inr 0)) = Inr 30"
    by (simp add: exampleIO_def)
  have h2: "detectSchema decimalLib (detectOpen (exampleIO (Inr 0))) (SampleRows defaults)
       = Inr ([''a'', ''b''], [typeInt64, typeString])"
    by code_simp
  have h3: "OutputDir defaults = [] \<or> mkdirAll (exampleIO (Inr 0)) = None"
    by (simp add: defaults_def)
  have h4: "writeParquet decimalLib (parquet (exampleIO (Inr 0))) ''in/x.csv''
         (outputPath ''in/x.csv'' defaults) [''a'', ''b''] [typeInt64, typeString]
         (BatchSize defaults)
       = Inr (None, [Create ''in/x.parquet'', Open ''in/x.csv''])"
    by code_simp
  have out: "statOutput (exampleIO (Inr 0)) = Inr 0"
    by (simp add: exampleIO_def)
  from output_verification [OF h1 h2 h3 h4] out
  have "\<exists>res ops. convertFile decimalLib (exampleIO (Inr 0)) ''in/x.csv'' defaults = Inr (res, ops)
         \<and> Err res = Some (GoError ''output verification failed'') \<and> OutputSize res = 0"
    by auto
  with h1 h2 h4 show ?thesis by blast
qed

section \<open>The destination of an input that is already a Parquet file\<close>

lemma splitAcc_append_slash:
  "splitAcc cur (a @ CHR ''/'' # b) = splitAcc cur a @ splitAcc [] b"
  by (induction a arbitrary: cur) simp_all

lemma splitAcc_noslash: "CHR ''/'' \<notin> set s \<Longrightarrow> splitAcc cur s = [cur @ s]"
  by (induction s arbitrary: cur) auto

lemma splitAcc_elems:
  "CHR ''/'' \<notin> set cur \<Longrightarrow> \<forall>e \<in> set (splitAcc cur s). CHR ''/'' \<notin> set e"
proof (induction s arbitrary: cur)
  case Nil
  then show ?case by simp
next
  case (Cons c s)
  show ?case
  proof (cases "c = CHR ''/''")
    case True
    with Cons.IH [of "[]"] Cons.prems show ?thesis by simp
  next
    case False
    with Cons.IH [of "cur @ [c]"] Cons.prems show ?thesis by simp
  qed
qed

lemma pathElems_append_slash: "pathElems (a @ CHR ''/'' # b) = pathElems a @ pathElems b"
  by (simp add: pathElems_def splitAcc_append_slash)

lemma pathElems_single: "validElem e \<Longrightarrow> pathElems e = [e]"
  by (simp add: pathElems_def validElem_def splitAcc_noslash)

lemma pathElems_empty: "pathElems [] = []"
  by (simp add: pathElems_def)

lemma pathElems_dot: "pathElems ''.'' = []"
  by (simp add: pathElems_def)

lemma pathElems_valid: "e \<in> set (pathElems p) \<Longrightarrow> validElem e"
  using splitAcc_elems [of "[]" p] by (auto simp: pathElems_def validElem_def)

lemma pathElems_joinSlash: "list_all validElem es \<Longrightarrow> pathElems (joinSlash es) = es"
proof (induction es rule: joinSlash.induct)
  case 1
  show ?case by (simp add: pathElems_empty)
next
  case (2 e)
  then show ?case by (simp add: pathElems_single)
next
  case (3 e e' es)
  then show ?case by (simp add: pathElems_append_slash pathElems_single)
qed

lemma pathElems_renderPath:
  "list_all validElem es \<Longrightarrow> pathElems (renderPath rooted es) = es"
  using pathElems_append_slash [of "[]" "joinSlash es"]
  by (auto simp: renderPath_def pathElems_joinSlash pathElems_dot pathElems_empty)

lemma joinSlash_Cons: "\<exists>t. joinSlash (e # es) = e @ t"
  by (cases es) simp_all

lemma hd_renderPath:
  assumes "list_all validElem es"
  shows "(hd (renderPath rooted es @ t) = CHR ''/'') = rooted"
proof (cases rooted)
  case True
  then show ?thesis by (simp add: renderPath_def)
next
  case False
  show ?thesis
  proof (cases es)
    case Nil
    with False show ?thesis by (simp add: renderPath_def)
  next
    case (Cons e es')
    obtain u where u: "joinSlash (e # es') = e @ u" using joinSlash_Cons by blast
    from assms Cons have "e \<noteq> []" "CHR ''/'' \<notin> set e" by (simp_all add: validElem_def)
    then have "hd e \<noteq> CHR ''/'' \<and> hd ((e @ u) @ t) = hd e" by (cases e) auto
    with False Cons u show ?thesis by (simp add: renderPath_def)
  qed
qed

lemma renderPath_nonempty: "list_all validElem es \<Longrightarrow> renderPath rooted es \<noteq> []"
proof (cases es)
  case Nil
  then show ?thesis by (simp add: renderPath_def)
next
  case (Cons e es')
  assume "list_all validElem es"
  with Cons have "e \<noteq> []" by (simp add: validElem_def)
  moreover obtain u where "joinSlash (e # es') = e @ u" using joinSlash_Cons by blast
  ultimately show ?thesis using Cons by (simp add: renderPath_def)
qed

lemma validElem_dotdot: "validElem ''..''"
  by (simp add: validElem_def)

lemma cleanStep_valid:
  "list_all validElem out \<Longrightarrow> validElem e \<Longrightarrow> list_all validElem (cleanStep rooted out e)"
  by (auto simp: cleanStep_def list_all_iff validElem_dotdot dest: in_set_butlastD)

lemma foldl_cleanStep_valid:
  "list_all validElem out \<Longrightarrow> list_all validElem es
   \<Longrightarrow> list_all validElem (foldl (cleanStep rooted) out es)"
  by (induction es arbitrary: out) (simp_all add: cleanStep_valid)

lemma cleaned_valid: "list_all validElem (foldl (cleanStep rooted) [] (pathElems p))"
  by (rule foldl_cleanStep_valid) (simp_all add: list_all_iff pathElems_valid)

lemma cleanStep_stuck:
  "out = [] \<or> last out = ''..''
   \<Longrightarrow> cleanStep rooted out ''..'' = (if rooted then out else out @ [''..''])"
  by (auto simp: cleanStep_def)

lemma cleanStep_normal:
  assumes "normalForm rooted out"
  shows "normalForm rooted (cleanStep rooted out e)"
proof -
  from assms obtain k names
    where out: "out = replicate k ''..'' @ names" and names: "''..'' \<notin> set names"
      and k: "rooted \<longrightarrow> k = 0"
    unfolding normalForm_def by blast
  show ?thesis
  proof (cases "e = ''..''")
    case False
    with out names k have "cleanStep rooted out e = replicate k ''..'' @ (names @ [e])"
      "''..'' \<notin> set (names @ [e])"
      by (simp_all add: cleanStep_def)
    with k show ?thesis unfolding normalForm_def by blast
  next
    case True
    show ?thesis
    proof (cases "names = []")
      case False
      then have "last out = last names" "out \<noteq> []" using out by simp_all
      moreover have "last names \<noteq> ''..''" using False names last_in_set by metis
      ultimately have "cleanStep rooted out e = replicate k ''..'' @ butlast names"
        using True out False by (simp add: cleanStep_def butlast_append)
      moreover have "''..'' \<notin> set (butlast names)"
        using names by (auto dest: in_set_butlastD)
      ultimately show ?thesis using k unfolding normalForm_def by blast
    next
      case empty: True
      then have dots: "out = replicate k ''..''" using out by simp
      then have nolast: "out = [] \<or> last out = ''..''" by (cases k) auto
      show ?thesis
      proof (cases rooted)
        case True
        with nolast \<open>e = ''..''\<close> have "cleanStep rooted out e = out" by (simp add: cleanStep_stuck)
        with assms show ?thesis by simp
      next
        case False
        with nolast \<open>e = ''..''\<close> dots
        have "cleanStep rooted out e = replicate (Suc k) ''..'' @ []"
          by (simp add: cleanStep_stuck replicate_append_same)
        with False show ?thesis unfolding normalForm_def by (metis empty_iff list.set(1))
      qed
    qed
  qed
qed

lemma normalForm_Nil: "normalForm rooted []"
  unfolding normalForm_def by (rule exI [of _ 0]) simp

lemma foldl_cleanStep_normal:
  "normalForm rooted out \<Longrightarrow> normalForm rooted (foldl (cleanStep rooted) out es)"
  by (induction es arbitrary: out) (simp_all add: cleanStep_normal)

lemma foldl_cleanStep_names:
  "''..'' \<notin> set es \<Longrightarrow> foldl (cleanStep rooted) out es = out @ es"
  by (induction es arbitrary: out) (auto simp: cleanStep_def)

lemma foldl_cleanStep_dots:
  "foldl (cleanStep False) [] (replicate k ''..'') = replicate k ''..''"
proof (induction k)
  case 0
  show ?case by simp
next
  case (Suc k)
  have "replicate k ''..'' = [] \<or> last (replicate k ''..'') = ''..''"
    by (cases k) auto
  then have "cleanStep False (replicate k ''..'') ''..'' = replicate k ''..'' @ [''..'']"
    by (simp add: cleanStep_stuck)
  moreover have snoc: "replicate (Suc k) ''..'' = replicate k ''..'' @ [''..'']"
    by (simp add: replicate_append_same)
  ultimately show ?case
    using Suc by (simp only: snoc foldl_append foldl.simps)
qed

lemma cleaned_fixed:
  assumes "normalForm rooted out"
  shows "foldl (cleanStep rooted) [] out = out"
proof -
  from assms obtain k names
    where out: "out = replicate k ''..'' @ names" and names: "''..'' \<notin> set names"
      and k: "rooted \<longrightarrow> k = 0"
    unfolding normalForm_def by blast
  show ?thesis
  proof (cases rooted)
    case True
    with k out names show ?thesis by (simp add: foldl_cleanStep_names)
  next
    case False
    with out names show ?thesis
      by (simp add: foldl_cleanStep_dots foldl_cleanStep_names)
  qed
qed

lemma Clean_of_Clean_slash:
  assumes "validElem fin" and "fin \<noteq> ''..''"
  shows "Clean (Clean (q @ ''/'') @ CHR ''/'' # fin) = Clean (q @ CHR ''/'' # fin)"
proof -
  define r where "r = (hd (q @ ''/'') = CHR ''/'')"
  define S where "S = foldl (cleanStep r) [] (pathElems q)"
  have elems: "pathElems (q @ ''/'') = pathElems q"
    using pathElems_append_slash [of q "[]"] by (simp add: pathElems_empty)
  have valid: "list_all validElem S"
    unfolding S_def by (rule cleaned_valid)
  have normal: "normalForm r S"
    unfolding S_def by (rule foldl_cleanStep_normal) (rule normalForm_Nil)
  have inner: "Clean (q @ ''/'') = renderPath r S"
    by (simp add: Clean_def r_def S_def elems)
  have step: "cleanStep r S fin = S @ [fin]"
    using assms(2) by (simp add: cleanStep_def)
  have "pathElems (renderPath r S @ CHR ''/'' # fin) = S @ [fin]"
    by (simp add: pathElems_append_slash pathElems_renderPath [OF valid]
        pathElems_single [OF assms(1)])
  moreover have "(hd (renderPath r S @ CHR ''/'' # fin) = CHR ''/'') = r"
    by (rule hd_renderPath [OF valid])
  ultimately have lhs: "Clean (renderPath r S @ CHR ''/'' # fin) = renderPath r (S @ [fin])"
    by (simp add: Clean_def cleaned_fixed [OF normal] step)
  have "hd (q @ CHR ''/'' # fin) = hd (q @ ''/'')"
    by (cases q) simp_all
  moreover have "pathElems (q @ CHR ''/'' # fin) = pathElems q @ [fin]"
    by (simp add: pathElems_append_slash pathElems_single [OF assms(1)])
  ultimately have "Clean (q @ CHR ''/'' # fin)
      = renderPath r (foldl (cleanStep r) [] (pathElems q @ [fin]))"
    by (simp add: Clean_def r_def)
  then have rhs: "Clean (q @ CHR ''/'' # fin) = renderPath r (S @ [fin])"
    by (simp add: S_def [symmetric] step)
  from lhs rhs inner show ?thesis by simp
qed

lemma Clean_dot_slash:
  assumes "validElem fin" and "fin \<noteq> ''..''"
  shows "Clean (''.'' @ CHR ''/'' # fin) = fin" and "Clean fin = fin"
proof -
  have "pathElems (''.'' @ CHR ''/'' # fin) = [fin]"
    by (simp only: pathElems_append_slash pathElems_dot pathElems_single [OF assms(1)]) simp
  then show "Clean (''.'' @ CHR ''/'' # fin) = fin"
    using assms(2) by (simp add: Clean_def cleanStep_def renderPath_def)
  from assms(1) have "fin \<noteq> []" "hd fin \<noteq> CHR ''/''"
    by (cases fin; auto simp: validElem_def)+
  then show "Clean fin = fin"
    using assms by (simp add: Clean_def pathElems_single cleanStep_def renderPath_def)
qed

lemma Clean_nonempty: "Clean p \<noteq> []"
  by (simp add: Clean_def renderPath_nonempty [OF cleaned_valid])

lemma path_split: "p = dirPrefix p @ lastElem p"
proof -
  have "rev p = takeWhile (\<lambda>c. c \<noteq> CHR ''/'') (rev p) @ dropWhile (\<lambda>c. c \<noteq> CHR ''/'') (rev p)"
    by simp
  then have "rev (rev p) = rev (takeWhile (\<lambda>c. c \<noteq> CHR ''/'') (rev p)
      @ dropWhile (\<lambda>c. c \<noteq> CHR ''/'') (rev p))"
    by simp
  then show ?thesis by (simp add: dirPrefix_def lastElem_def del: takeWhile_dropWhile_id)
qed

lemma lastElem_noslash: "CHR ''/'' \<notin> set (lastElem p)"
  by (auto simp: lastElem_def dest: set_takeWhileD)

lemma dirPrefix_cases: "dirPrefix p = [] \<or> (\<exists>q. dirPrefix p = q @ ''/'')"
proof (cases "dropWhile (\<lambda>c. c \<noteq> CHR ''/'') (rev p)")
  case Nil
  then show ?thesis by (simp add: dirPrefix_def)
next
  case (Cons c cs)
  then have "\<not> (c \<noteq> CHR ''/'')"
    using hd_dropWhile [of "\<lambda>c. c \<noteq> CHR ''/''" "rev p"] by simp
  with Cons show ?thesis by (simp add: dirPrefix_def)
qed

lemma Ext_suffix:
  assumes "Ext p \<noteq> []"
  shows "\<exists>x. lastElem p = x @ Ext p"
proof -
  let ?e = "lastElem p"
  let ?P = "\<lambda>c. c \<noteq> CHR ''.''"
  from assms have dot: "CHR ''.'' \<in> set ?e"
    by (auto simp: Ext_def Let_def split: if_splits)
  then have ext: "Ext p = CHR ''.'' # rev (takeWhile ?P (rev ?e))"
    by (simp add: Ext_def Let_def)
  from dot have "dropWhile ?P (rev ?e) \<noteq> []" by (simp add: dropWhile_eq_Nil_conv)
  then obtain c cs where d: "dropWhile ?P (rev ?e) = c # cs" by (cases "dropWhile ?P (rev ?e)") auto
  then have c: "c = CHR ''.''"
    using hd_dropWhile [of ?P "rev ?e"] by simp
  have "rev ?e = takeWhile ?P (rev ?e) @ dropWhile ?P (rev ?e)" by simp
  then have "rev (rev ?e) = rev (takeWhile ?P (rev ?e) @ c # cs)" using d by simp
  then have "?e = rev cs @ CHR ''.'' # rev (takeWhile ?P (rev ?e))" using c by simp
  with ext show ?thesis by auto
qed

lemma outputPath_of_parquet:
  assumes "Ext p = ''.parquet''" and "OutputDir cfg = []"
  shows "outputPath p cfg = Clean p"
proof -
  let ?e = "lastElem p"
  obtain x where e: "?e = x @ ''.parquet''"
    using Ext_suffix [of p] assms(1) by auto
  then have len: "8 \<le> length ?e" by simp
  have valid: "validElem ?e" and nodots: "?e \<noteq> ''..''"
    using len lastElem_noslash [of p] by (auto simp: validElem_def)
  define d where "d = dirPrefix p"
  have p: "p = d @ x @ ''.parquet''"
    using path_split [of p] e by (simp add: d_def)
  have "Base (d @ x @ ''.parquet'') = lastElem (d @ x @ ''.parquet'')"
    by (simp add: Base_def Let_def lastElem_def)
  then have base: "Base p = ?e"
    using p by simp
  have trim: "TrimSuffix ?e ''.parquet'' @ ''.parquet'' = ?e"
    by (simp add: e TrimSuffix_def HasSuffix_def)
  have out: "outputPath p cfg = Clean (Clean (dirPrefix p) @ CHR ''/'' # ?e)"
    by (simp add: outputPath_def Let_def assms Dir_def Join_def Clean_nonempty base trim)
  from dirPrefix_cases [of p] show ?thesis
  proof
    assume d: "dirPrefix p = []"
    then have "p = ?e" using path_split [of p] by simp
    moreover have "Clean (dirPrefix p) = ''.''" using d by (simp add: Clean_def)
    ultimately show ?thesis
      using out Clean_dot_slash [OF valid nodots] by simp
  next
    assume "\<exists>q. dirPrefix p = q @ ''/''"
    then obtain q where q: "dirPrefix p = q @ ''/''" by blast
    then have "p = q @ CHR ''/'' # ?e" using path_split [of p] by simp
    then show ?thesis
      using out q Clean_of_Clean_slash [OF valid nodots, of q] by simp
  qed
qed

lemma writeParquet_success_ops:
  "writeParquet L io inputFile outFile headers types batchSize = Inr (None, wops)
   \<Longrightarrow> wops = [Create outFile, Open inputFile]"
  unfolding writeParquet_def
  by (auto split: option.splits sum.splits list.splits csvRead.splits prod.splits)

lemma convertFile_ops:
  assumes "convertFile L io inputFile cfg = Inr (res, ops)"
  shows "(\<forall>x. Create x \<in> set ops \<longrightarrow> x = outputPath inputFile cfg)
       \<and> (\<forall>x. Remove x \<in> set ops \<longrightarrow> x = inputFile \<or> x = outputPath inputFile cfg)
       \<and> (Err res = None \<longrightarrow>
            OutputFile res = outputPath inputFile cfg
          \<and> Create (outputPath inputFile cfg) \<in> set ops
          \<and> (DeleteOriginal cfg \<longrightarrow> Remove inputFile \<in> set ops))"
proof (cases "statInput io")
  case (Inl e)
  with assms show ?thesis by (auto simp: convertFile_def)
next
  case (Inr inSize)
  note stat = Inr
  show ?thesis
  proof (cases "detectSchema L (detectOpen io) (SampleRows cfg)")
    case (Inl e)
    with assms stat show ?thesis by (auto simp: convertFile_def Let_def)
  next
    case (Inr schema)
    then obtain headers types
      where det: "detectSchema L (detectOpen io) (SampleRows cfg) = Inr (headers, types)"
      by (cases schema) auto
    show ?thesis
    proof (cases "if OutputDir cfg \<noteq> [] then mkdirAll io else None")
      case (Some e)
      with assms stat det show ?thesis by (auto simp: convertFile_def Let_def)
    next
      case None
      note mk = None
      show ?thesis
      proof (cases "writeParquet L (parquet io) inputFile (outputPath inputFile cfg) headers types
          (BatchSize cfg)")
        case (Inl p)
        with assms stat det mk show ?thesis by (simp add: convertFile_def Let_def)
      next
        case (Inr wres)
        then obtain we wops
          where wr: "writeParquet L (parquet io) inputFile (outputPath inputFile cfg) headers
              types (BatchSize cfg) = Inr (we, wops)"
          by (cases wres) auto
        note sub = writeParquet_ops [OF wr]
        show ?thesis
        proof (cases we)
          case (Some e)
          with assms stat det mk wr sub show ?thesis
            by (auto simp: convertFile_def Let_def)
        next
          case None
          with wr have wops: "wops = [Create (outputPath inputFile cfg), Open inputFile]"
            using writeParquet_success_ops by blast
          show ?thesis
          proof (cases "statOutput io")
            case (Inl e)
            with assms stat det mk wr None wops show ?thesis
              by (auto simp: convertFile_def Let_def)
          next
            case (Inr outSize)
            with assms stat det mk wr None wops show ?thesis
              by (cases "outSize = 0") (auto simp: convertFile_def Let_def)
          qed
        qed
      qed
    qed
  qed
qed

text \<open>
  C9 (as amended). For every input path whose extension is \<^verbatim>\<open>.parquet\<close>, with no
  output directory configured, the destination path is \<^verbatim>\<open>filepath.Clean\<close> of the
  input path; it is the input path itself when that one is clean. Every file that
  \<^verbatim>\<open>convertFile\<close> creates is at that path, and in a result without an error the
  output file is that path, it was created, and the input path was removed when
  delete-original is configured. The claim as stated, that the destination equals the
  input path for every such path, fails for \<^verbatim>\<open>./data.parquet\<close>, whose destination
  is \<^verbatim>\<open>data.parquet\<close>.
\<close>

theorem outputPath_parquet_input:
  assumes "Ext inputFile = ''.parquet''" and "OutputDir cfg = []"
  shows "outputPath inputFile cfg = Clean inputFile
       \<and> (Clean inputFile = inputFile \<longrightarrow> outputPath inputFile cfg = inputFile)
       \<and> (convertFile L io inputFile cfg = Inr (res, ops) \<longrightarrow>
            (\<forall>x. Create x \<in> set ops \<longrightarrow> x = Clean inputFile)
          \<and> (\<forall>x. Remove x \<in> set ops \<longrightarrow> x = inputFile \<or> x = Clean inputFile)
          \<and> (Err res = None \<longrightarrow>
               OutputFile res = Clean inputFile
             \<and> Create (Clean inputFile) \<in> set ops
             \<and> (DeleteOriginal cfg \<longrightarrow> Remove inputFile \<in> set ops)))"
  using outputPath_of_parquet [OF assms] convertFile_ops [of L io inputFile cfg res ops]
  by auto

theorem outputPath_unclean_counterexample:
  "Ext ''./data.parquet'' = ''.parquet'' \<and> OutputDir defaults = []
   \<and> outputPath ''./data.parquet'' defaults = ''data.parquet''
   \<and> outputPath ''./data.parquet'' defaults \<noteq> ''./data.parquet''"
  by code_simp

theorem outputPath_parquet_input_witness:
  "Ext ''data/x.parquet'' = ''.parquet'' \<and> OutputDir defaults = []
   \<and> Clean ''data/x.parquet'' = ''data/x.parquet''
   \<and> outputPath ''data/x.parquet'' defaults = ''data/x.parquet''
   \<and> (\<exists>res. convertFile decimalLib (exampleIO (Inr 412)) ''data/x.parquet'' defaults
         = Inr (res, [Stat ''data/x.parquet'', Open ''data/x.parquet'',
                      Create ''data/x.parquet'', Open ''data/x.parquet'',
                      Stat ''data/x.parquet'', Remove ''data/x.parquet''])
         \<and> Err res = None)"
proof -
  have h1: "Ext ''data/x.parquet'' = ''.parquet''" by code_simp
  have h2: "OutputDir defaults = []" by (simp add: defaults_def)
  have c: "Clean ''data/x.parquet'' = ''data/x.parquet''" by code_simp
  from outputPath_parquet_input [OF h1 h2, THEN conjunct1] c
  have o: "outputPath ''data/x.parquet'' defaults = ''data/x.parquet''" by simp
  have "convertFile decimalLib (exampleIO (Inr 412)) ''data/x.parquet'' defaults
         = Inr (\<lparr>InputFile = ''data/x.parquet'', OutputFile = ''data/x.parquet'',
                  InputSize = 30, OutputSize = 412, Err = None\<rparr>,
                [Stat ''data/x.parquet'', Open ''data/x.parquet'',
                 Create ''data/x.parquet'', Open ''data/x.parquet'',
                 Stat ''data/x.parquet'', Remove ''data/x.parquet''])"
    by code_simp
  then have "\<exists>res. convertFile decimalLib (exampleIO (Inr 412)) ''data/x.parquet'' defaults
         = Inr (res, [Stat ''data/x.parquet'', Open ''data/x.parquet'',
                      Create ''data/x.parquet'', Open ''data/x.parquet'',
                      Stat ''data/x.parquet'', Remove ''data/x.parquet''])
         \<and> Err res = None"
    by simp
  with h1 h2 c o show ?thesis by blast
qed

section \<open>The order of the results of a batch\<close>













end
